theory Spec2Isabelle
  imports Main "HOL-Library.Sublist" "HOL-Library.Multiset"
begin

section \<open>Data model (types.ts)\<close>

text \<open>
  Option indices, selections and weights are JavaScript numbers that only ever hold
  integers; they are modelled as \<open>int\<close>. A flag value is \<open>boolean | string\<close>, and
  \<open>Flags = Record<string, FlagValue>\<close> is a partial map: a missing key reads as
  \<open>undefined\<close>, which is strictly equal to no flag value.
\<close>

datatype FlagValue = BoolV bool | StrV string

type_synonym Flags = "string \<rightharpoonup> FlagValue"

text \<open>The object under \<open>flag_equals\<close>: \<open>{ flag_name, value }\<close>.\<close>

record FlagEquals =
  fe_flag_name :: string
  fe_value :: FlagValue

text \<open>\<open>RouteCondition\<close>: five optional fields, \<open>None\<close> for \<open>undefined\<close>.\<close>

record RouteCondition =
  answer_is :: "int option"
  is_this_exact_match_selected :: "int list option"
  if_any_answer_in :: "int list option"
  if_none_selected_in :: "int list option"
  flag_equals :: "FlagEquals option"

text \<open>\<open>SetFlag\<close>: the field \<open>value\<close> is called \<open>flag_value\<close> here.\<close>

record SetFlag =
  flag_name :: string
  flag_value :: FlagValue
  condition :: "RouteCondition list option"

record Route =
  conditions :: "RouteCondition list option"
  go_to :: string
  set_flags :: "SetFlag list option"

text \<open>\<open>AnswerFlagConfig\<close>: \<open>set_flags\<close> and \<open>exclusive\<close>, prefixed to keep names apart.\<close>

record AnswerFlagConfig =
  afc_set_flags :: "SetFlag list option"
  afc_exclusive :: "bool option"

datatype NodeType = Radio | Checkbox | Hub

record DecisionNode =
  original_id :: string
  question_id :: string
  node_type :: NodeType
  routing :: "Route list"
  answer_flags :: "(string \<rightharpoonup> AnswerFlagConfig) option"

text \<open>The value returned by \<open>evaluateRouting\<close> and \<open>evaluateHubNode\<close>.\<close>

record RoutingResult =
  nextNodeId :: string
  flagsToSet :: "SetFlag list"

section \<open>Condition evaluator and routing engine (utils/routing.ts)\<close>

text \<open>
  \<open>evaluateCondition\<close>: a chain of \<open>if (field !== undefined) return ...\<close>, in the order
  of the source. \<open>selectedAnswers.includes(a)\<close> is membership in the selection.
\<close>

definition evaluateCondition :: "RouteCondition \<Rightarrow> int list \<Rightarrow> Flags \<Rightarrow> bool" where
  "evaluateCondition cond selectedAnswers flags =
     (case answer_is cond of
        Some a \<Rightarrow> a \<in> set selectedAnswers
      | None \<Rightarrow>
     (case is_this_exact_match_selected cond of
        Some required \<Rightarrow>
          (if length selectedAnswers \<noteq> length required then False
           else list_all (\<lambda>ans. ans \<in> set selectedAnswers) required)
      | None \<Rightarrow>
     (case if_any_answer_in cond of
        Some xs \<Rightarrow> list_ex (\<lambda>ans. ans \<in> set selectedAnswers) xs
      | None \<Rightarrow>
     (case if_none_selected_in cond of
        Some xs \<Rightarrow> \<not> list_ex (\<lambda>ans. ans \<in> set selectedAnswers) xs
      | None \<Rightarrow>
     (case flag_equals cond of
        Some fe \<Rightarrow> flags (fe_flag_name fe) = Some (fe_value fe)
      | None \<Rightarrow> True)))))"

text \<open>\<open>evaluateAllConditions\<close>: absent or empty list is true, otherwise \<open>every\<close>.\<close>

definition evaluateAllConditions :: "RouteCondition list option \<Rightarrow> int list \<Rightarrow> Flags \<Rightarrow> bool" where
  "evaluateAllConditions conds selectedAnswers flags =
     (case conds of
        None \<Rightarrow> True
      | Some cs \<Rightarrow>
          (if length cs = 0 then True
           else list_all (\<lambda>cond. evaluateCondition cond selectedAnswers flags) cs))"

text \<open>
  The \<open>for (const route of node.routing)\<close> loop of \<open>evaluateRouting\<close>, returning at the
  first route that matches; \<open>route.set_flags || []\<close> reads an absent list as empty.
\<close>

fun routeLoop :: "Route list \<Rightarrow> int list \<Rightarrow> Flags \<Rightarrow> RoutingResult option" where
  "routeLoop [] selectedAnswers flags = None"
| "routeLoop (route # rest) selectedAnswers flags =
     (if evaluateAllConditions (conditions route) selectedAnswers flags
      then Some \<lparr> nextNodeId = go_to route,
                  flagsToSet = (case set_flags route of None \<Rightarrow> [] | Some fs \<Rightarrow> fs) \<rparr>
      else routeLoop rest selectedAnswers flags)"

definition evaluateRouting :: "DecisionNode \<Rightarrow> int list \<Rightarrow> Flags \<Rightarrow> RoutingResult option" where
  "evaluateRouting node selectedAnswers flags = routeLoop (routing node) selectedAnswers flags"

text \<open>
  \<open>Number.prototype.toString\<close> on an integer: decimal digits, with a leading minus
  sign for a negative number (the exponent notation of very large numbers is not
  modelled).
\<close>

definition digitChar :: "nat \<Rightarrow> char" where
  "digitChar d = ''0123456789'' ! d"

function natToString :: "nat \<Rightarrow> string" where
  "natToString n =
     (if n < 10 then [digitChar n] else natToString (n div 10) @ [digitChar (n mod 10)])"
  by pat_completeness auto
termination
  by (relation "measure id") auto

declare natToString.simps [simp del]

definition toString :: "int \<Rightarrow> string" where
  "toString i = (if i < 0 then CHR ''-'' # natToString (nat (- i)) else natToString (nat i))"

text \<open>
  The callback of \<open>flagConfig.condition.every\<close> in \<open>getAnswerFlags\<close>: an entry with a
  \<open>flag_equals\<close> compares the flag, any other entry returns true.
\<close>

definition nestedConditionMet :: "Flags \<Rightarrow> RouteCondition \<Rightarrow> bool" where
  "nestedConditionMet currentFlags cond =
     (case flag_equals cond of
        Some fe \<Rightarrow> currentFlags (fe_flag_name fe) = Some (fe_value fe)
      | None \<Rightarrow> True)"

text \<open>
  The inner loop \<open>for (const flagConfig of answerConfig.set_flags)\<close>: \<open>continue\<close> when
  a non-empty condition list is not met, otherwise push \<open>{flag_name, value}\<close>
  (the array \<open>flagsToSet\<close> of the source is the accumulator \<open>flagList\<close>).
\<close>

fun flagConfigLoop :: "SetFlag list \<Rightarrow> Flags \<Rightarrow> SetFlag list \<Rightarrow> SetFlag list" where
  "flagConfigLoop [] currentFlags flagList = flagList"
| "flagConfigLoop (flagConfig # rest) currentFlags flagList =
     (if (case condition flagConfig of
            Some conds \<Rightarrow> length conds > 0 \<and> \<not> list_all (nestedConditionMet currentFlags) conds
          | None \<Rightarrow> False)
      then flagConfigLoop rest currentFlags flagList
      else flagConfigLoop rest currentFlags
             (flagList @ [\<lparr> flag_name = flag_name flagConfig,
                               flag_value = flag_value flagConfig,
                               condition = None \<rparr>]))"

text \<open>
  The outer loop \<open>for (const answerIndex of selectedAnswers)\<close>: the configuration is
  looked up under \<open>answerIndex.toString()\<close>; \<open>continue\<close> when it or its \<open>set_flags\<close> is
  absent.
\<close>

fun answerLoop ::
  "(string \<rightharpoonup> AnswerFlagConfig) \<Rightarrow> int list \<Rightarrow> Flags \<Rightarrow> SetFlag list \<Rightarrow> SetFlag list" where
  "answerLoop answerFlags [] currentFlags flagList = flagList"
| "answerLoop answerFlags (answerIndex # rest) currentFlags flagList =
     (case answerFlags (toString answerIndex) of
        None \<Rightarrow> answerLoop answerFlags rest currentFlags flagList
      | Some answerConfig \<Rightarrow>
          (case afc_set_flags answerConfig of
             None \<Rightarrow> answerLoop answerFlags rest currentFlags flagList
           | Some fs \<Rightarrow>
               answerLoop answerFlags rest currentFlags
                 (flagConfigLoop fs currentFlags flagList)))"

definition getAnswerFlags :: "DecisionNode \<Rightarrow> int list \<Rightarrow> Flags \<Rightarrow> SetFlag list" where
  "getAnswerFlags node selectedAnswers currentFlags =
     (case answer_flags node of
        None \<Rightarrow> []
      | Some answerFlags \<Rightarrow> answerLoop answerFlags selectedAnswers currentFlags [])"

text \<open>\<open>applyFlags\<close>: copy the flags, then assign each flag in order (last write wins).\<close>

definition applyFlags :: "Flags \<Rightarrow> SetFlag list \<Rightarrow> Flags" where
  "applyFlags currentFlags flagList =
     foldl (\<lambda>newFlags flag. newFlags(flag_name flag \<mapsto> flag_value flag)) currentFlags flagList"

text \<open>\<open>isHubNode\<close>: declared type \<open>hub\<close>, or a question id that contains \<open>hub\<close>.\<close>

definition isHubNode :: "DecisionNode \<Rightarrow> bool" where
  "isHubNode node = (node_type node = Hub \<or> sublist ''hub'' (question_id node))"

text \<open>\<open>evaluateHubNode\<close>: the routing loop with an empty selection.\<close>

definition evaluateHubNode :: "DecisionNode \<Rightarrow> Flags \<Rightarrow> RoutingResult option" where
  "evaluateHubNode node flags = routeLoop (routing node) [] flags"

section \<open>Hub resolver (hooks/useRouting.ts)\<close>

text \<open>
  \<open>decisionTree.nodes\<close> is static data loaded from a JSON file; it is a parameter of
  the model, a partial map from node id to node.
\<close>

type_synonym NodeTable = "string \<rightharpoonup> DecisionNode"

definition maxIterations :: nat where
  "maxIterations = 50"

text \<open>
  The \<open>while (iterations < maxIterations)\<close> loop of \<open>processHubNodes\<close>. Its state is
  the iteration counter, the current node id, the working copy of the flags and the
  accumulated flags; every \<open>break\<close> leaves the loop with the state as it is.
\<close>

function hubLoop ::
  "NodeTable \<Rightarrow> nat \<Rightarrow> string \<Rightarrow> Flags \<Rightarrow> SetFlag list \<Rightarrow> nat \<times> string \<times> Flags \<times> SetFlag list" where
  "hubLoop nodes iterations currentNode currentFlags accumulatedFlags =
     (if iterations < maxIterations then
        (if currentNode = ''END'' then (iterations + 1, currentNode, currentFlags, accumulatedFlags)
         else
           (case nodes currentNode of
              None \<Rightarrow> (iterations + 1, currentNode, currentFlags, accumulatedFlags)
            | Some node \<Rightarrow>
                (if \<not> isHubNode node
                 then (iterations + 1, currentNode, currentFlags, accumulatedFlags)
                 else
                   (case evaluateHubNode node currentFlags of
                      None \<Rightarrow> (iterations + 1, currentNode, currentFlags, accumulatedFlags)
                    | Some result \<Rightarrow>
                        hubLoop nodes (iterations + 1) (nextNodeId result)
                          (applyFlags currentFlags (flagsToSet result))
                          (accumulatedFlags @ flagsToSet result)))))
      else (iterations, currentNode, currentFlags, accumulatedFlags))"
  by pat_completeness auto
termination
  by (relation "measure (\<lambda>(nodes, iterations, rest). maxIterations - iterations)") auto

declare hubLoop.simps [simp del]

text \<open>\<open>processHubNodes\<close> returns \<open>{ finalNodeId, accumulatedFlags }\<close>.\<close>

definition processHubNodes :: "NodeTable \<Rightarrow> string \<Rightarrow> Flags \<Rightarrow> string \<times> SetFlag list" where
  "processHubNodes nodes startNodeId flags =
     (case hubLoop nodes 0 startNodeId flags [] of
        (iterations, finalNodeId, currentFlags, accumulatedFlags) \<Rightarrow>
          (finalNodeId, accumulatedFlags))"

text \<open>The name and value of each flag of a list, in order.\<close>

abbreviation flagPairs :: "SetFlag list \<Rightarrow> (string \<times> FlagValue) list" where
  "flagPairs \<equiv> map (\<lambda>flag. (flag_name flag, flag_value flag))"

text \<open>
  One hop of the hub chain, from a state (node id, working flags, accumulated flags):
  defined when the node is not the terminal id, exists, is a hub and routes. The hop is
  stated on its own terms: the new working flags are the old ones overridden by the
  flags of the route taken, the last entry of a name winning.
\<close>

definition hubHop ::
  "NodeTable \<Rightarrow> string \<times> Flags \<times> SetFlag list \<Rightarrow> (string \<times> Flags \<times> SetFlag list) option" where
  "hubHop nodes s =
     (case s of (nid, fl, acc) \<Rightarrow>
        (if nid = ''END'' then None
         else
           (case nodes nid of
              None \<Rightarrow> None
            | Some node \<Rightarrow>
                (if \<not> isHubNode node then None
                 else
                   (case evaluateHubNode node fl of
                      None \<Rightarrow> None
                    | Some result \<Rightarrow>
                        Some (nextNodeId result,
                              fl ++ map_of (rev (flagPairs (flagsToSet result))),
                              acc @ flagsToSet result))))))"

text \<open>The state after exactly \<open>k\<close> hops, when that many hops can be taken.\<close>

fun hubHops ::
  "NodeTable \<Rightarrow> nat \<Rightarrow> string \<times> Flags \<times> SetFlag list \<Rightarrow> (string \<times> Flags \<times> SetFlag list) option" where
  "hubHops nodes 0 s = Some s"
| "hubHops nodes (Suc k) s =
     (case hubHop nodes s of None \<Rightarrow> None | Some s' \<Rightarrow> hubHops nodes k s')"

section \<open>Validation (utils/validation.ts)\<close>

text \<open>\<open>QuestionOption\<close> and \<open>Question\<close>; \<open>id\<close> and \<open>text\<close> carry a prefix here.\<close>

record QuestionOption =
  opt_id :: string
  opt_text :: string
  exclusive :: "bool option"

datatype QuestionType = single_choice | multiple_choice

record Question =
  q_id :: string
  q_original_id :: string
  q_text :: string
  section_title :: string
  q_type :: QuestionType
  required :: bool
  options :: "QuestionOption list"

text \<open>
  \<open>ValidationRule\<close>: \<open>validateAnswer\<close> reads \<open>min_selections\<close> and \<open>max_selections\<close>
  only; the fields \<open>mutual_exclusivity\<close> and \<open>short_circuit\<close>, which no code reads, are
  left out.
\<close>

record ValidationRule =
  rule_required :: bool
  rule_type :: QuestionType
  min_selections :: int
  max_selections :: "int option"

record ValidationResult =
  isValid :: bool
  errors :: "string list"

text \<open>
  \<open>parseInt(string)\<close> with no radix: leading white space is skipped, then an optional
  sign, then \<open>0x\<close> or \<open>0X\<close> selects radix 16, then the longest run of digits is read.
  \<open>None\<close> stands for \<open>NaN\<close> (no digit read), which is equal to no number.
\<close>

definition isWhiteSpace :: "char \<Rightarrow> bool" where
  "isWhiteSpace c = (c \<in> set [CHR '' '', CHR 0x09, CHR 0x0A, CHR 0x0B, CHR 0x0C, CHR 0x0D])"

definition digitValue :: "char \<Rightarrow> nat" where
  "digitValue c =
     (let n = of_char c in
      if 48 \<le> n \<and> n \<le> 57 then n - 48
      else if 97 \<le> n \<and> n \<le> 122 then n - 87
      else if 65 \<le> n \<and> n \<le> 90 then n - 55
      else 36)"

definition parseInt :: "string \<Rightarrow> int option" where
  "parseInt str =
     (let s1 = dropWhile isWhiteSpace str;
          neg = (s1 \<noteq> [] \<and> hd s1 = CHR ''-'');
          s2 = (if s1 \<noteq> [] \<and> (hd s1 = CHR ''-'' \<or> hd s1 = CHR ''+'') then tl s1 else s1);
          hex = (length s2 \<ge> 2 \<and> hd s2 = CHR ''0''
                   \<and> (hd (tl s2) = CHR ''x'' \<or> hd (tl s2) = CHR ''X''));
          radix = (if hex then 16 else 10);
          s3 = (if hex then tl (tl s2) else s2);
          ds = takeWhile (\<lambda>c. digitValue c < radix) s3
      in if ds = [] then None
         else Some ((if neg then - 1 else 1)
                      * int (foldl (\<lambda>acc c. acc * radix + digitValue c) 0 ds)))"

text \<open>
  \<open>validateAnswer\<close>. A bound that is \<open>0\<close> (or an absent \<open>max_selections\<close>) is falsy and
  is skipped. The array \<open>errors\<close> of the source is built up in \<open>errs\<close>.
\<close>

definition validateAnswer ::
  "Question \<Rightarrow> int list \<Rightarrow> ValidationRule option \<Rightarrow> ValidationResult" where
  "validateAnswer question selectedAnswers validationRule =
     (if required question \<and> length selectedAnswers = 0
      then \<lparr> isValid = False, errors = [''Please select at least one option''] \<rparr>
      else if q_type question = single_choice \<and> length selectedAnswers > 1
      then \<lparr> isValid = False, errors = [''Please select only one option''] \<rparr>
      else
        (let errs =
               (case validationRule of
                  None \<Rightarrow> []
                | Some rule \<Rightarrow>
                    (if min_selections rule \<noteq> 0
                          \<and> int (length selectedAnswers) < min_selections rule
                     then [''Please select at least '' @ toString (min_selections rule)
                             @ '' option(s)'']
                     else [])
                    @ (case max_selections rule of
                         None \<Rightarrow> []
                       | Some m \<Rightarrow>
                           (if m \<noteq> 0 \<and> int (length selectedAnswers) > m
                            then [''Please select at most '' @ toString m @ '' option(s)'']
                            else [])));
             exclusiveOptions = filter (\<lambda>opt. exclusive opt = Some True) (options question)
         in if length exclusiveOptions > 0
               \<and> list_ex (\<lambda>ans. list_ex (\<lambda>opt. parseInt (opt_id opt) = Some ans)
                                   exclusiveOptions) selectedAnswers
               \<and> length selectedAnswers > 1
            then \<lparr> isValid = False,
                   errors = errs @ [''The selected option cannot be combined with other options''] \<rparr>
            else \<lparr> isValid = (length errs = 0), errors = errs \<rparr>))"

text \<open>
  \<open>isExclusiveOption\<close>: \<open>question.options[optionIndex]\<close> is \<open>undefined\<close> out of range,
  and then \<open>option?.exclusive === true\<close> is false.
\<close>

definition isExclusiveOption :: "Question \<Rightarrow> int \<Rightarrow> bool" where
  "isExclusiveOption question optionIndex =
     (if 0 \<le> optionIndex \<and> nat optionIndex < length (options question)
      then exclusive (options question ! nat optionIndex) = Some True
      else False)"

text \<open>\<open>handleSelectionWithExclusivity\<close>.\<close>

definition handleSelectionWithExclusivity :: "Question \<Rightarrow> int list \<Rightarrow> int \<Rightarrow> int list" where
  "handleSelectionWithExclusivity question currentSelection toggledOption =
     (let isExclusive = isExclusiveOption question toggledOption;
          wasSelected = (toggledOption \<in> set currentSelection)
      in if q_type question = single_choice
         then (if wasSelected then [] else [toggledOption])
         else if wasSelected
         then filter (\<lambda>opt. opt \<noteq> toggledOption) currentSelection
         else if isExclusive
         then [toggledOption]
         else
           (let exclusiveIndices =
                  filter (\<lambda>idx. idx \<noteq> - 1)
                    (map (\<lambda>(idx, opt). if exclusive opt = Some True then int idx else - 1)
                       (enumerate 0 (options question)))
            in filter (\<lambda>opt. opt \<notin> set exclusiveIndices) currentSelection @ [toggledOption]))"

section \<open>Outcome aggregation (utils/outcomeEvaluator.ts)\<close>

datatype StructureLevel = Role | RiskLevel | Obligation

record Outcome =
  outcome_id :: string
  structure_level :: StructureLevel
  priority_weight :: int
  outcome_risk_level :: string
  display_color :: string
  outcome_text :: string
  applicable_articles :: "int list"
  is_empty :: bool

record GroupedOutcomes =
  role :: "Outcome list"
  risk_level :: "Outcome list"
  obligation :: "Outcome list"

text \<open>
  The body of the first loop of \<open>groupOutcomesByLevel\<close>: push the outcome on the array
  of its level (\<open>grouped[level]\<close> is an array, hence truthy, for each of the three
  levels of the type).
\<close>

definition pushOutcome :: "GroupedOutcomes \<Rightarrow> Outcome \<Rightarrow> GroupedOutcomes" where
  "pushOutcome grouped outcome =
     (case structure_level outcome of
        Role \<Rightarrow> grouped\<lparr> role := role grouped @ [outcome] \<rparr>
      | RiskLevel \<Rightarrow> grouped\<lparr> risk_level := risk_level grouped @ [outcome] \<rparr>
      | Obligation \<Rightarrow> grouped\<lparr> obligation := obligation grouped @ [outcome] \<rparr>)"

text \<open>
  \<open>xs.sort((a, b) => b.priority_weight - a.priority_weight)\<close>: \<open>Array.prototype.sort\<close>
  is a stable sort, here by descending weight; it is modelled by the stable insertion
  sort of the library on the negated weight.
\<close>

definition sortByWeight :: "Outcome list \<Rightarrow> Outcome list" where
  "sortByWeight xs = sort_key (\<lambda>outcome. - priority_weight outcome) xs"

definition groupOutcomesByLevel :: "Outcome list \<Rightarrow> GroupedOutcomes" where
  "groupOutcomesByLevel activeOutcomes =
     (let grouped = foldl pushOutcome \<lparr> role = [], risk_level = [], obligation = [] \<rparr>
                      activeOutcomes
      in \<lparr> role = sortByWeight (role grouped),
           risk_level = sortByWeight (risk_level grouped),
           obligation = sortByWeight (obligation grouped) \<rparr>)"

section \<open>Wizard state store (hooks/useWizardState.ts)\<close>

type_synonym Answers = "string \<rightharpoonup> int list"

text \<open>\<open>HistoryEntry\<close>: \<open>answers\<close> and \<open>flags\<close> carry a prefix here.\<close>

record HistoryEntry =
  nodeId :: string
  entry_answers :: "int list"
  entry_flags :: Flags

record WizardState =
  currentNodeId :: string
  answers :: Answers
  flags :: Flags
  history :: "string list"
  isComplete :: bool

text \<open>
  The hook owns two state cells, \<open>state\<close> and \<open>historyStack\<close>; each operation is a
  function from the store before to the store after (and the value it returns).
\<close>

record WizardStore =
  state :: WizardState
  historyStack :: "HistoryEntry list"

text \<open>\<open>initialState\<close>, with \<open>decisionTree.start\<close> as a parameter.\<close>

definition initialState :: "string \<Rightarrow> WizardState" where
  "initialState start = \<lparr> currentNodeId = start, answers = Map.empty, flags = Map.empty,
     history = [], isComplete = False \<rparr>"

definition initialStore :: "string \<Rightarrow> WizardStore" where
  "initialStore start = \<lparr> state = initialState start, historyStack = [] \<rparr>"

definition setCurrentNode :: "string \<Rightarrow> WizardStore \<Rightarrow> WizardStore" where
  "setCurrentNode nid store =
     store\<lparr> state := (state store)\<lparr> currentNodeId := nid, isComplete := (nid = ''END'') \<rparr> \<rparr>"

definition setAnswer :: "string \<Rightarrow> int list \<Rightarrow> WizardStore \<Rightarrow> WizardStore" where
  "setAnswer questionId selected store =
     store\<lparr> state := (state store)\<lparr> answers := (answers (state store))(questionId \<mapsto> selected) \<rparr> \<rparr>"

definition storeApplyFlags :: "SetFlag list \<Rightarrow> WizardStore \<Rightarrow> WizardStore" where
  "storeApplyFlags flagList store =
     store\<lparr> state := (state store)\<lparr> flags := applyFlags (flags (state store)) flagList \<rparr> \<rparr>"

definition addToHistory :: "string \<Rightarrow> int list \<Rightarrow> Flags \<Rightarrow> WizardStore \<Rightarrow> WizardStore" where
  "addToHistory nid selected fl store =
     \<lparr> state = (state store)\<lparr> history := history (state store) @ [nid] \<rparr>,
       historyStack = historyStack store
          @ [\<lparr> nodeId = nid, entry_answers = selected, entry_flags = fl \<rparr>] \<rparr>"

text \<open>
  \<open>goBack\<close>: \<open>historyStack[historyStack.length - 1]\<close> is the last entry, and
  \<open>slice(0, -1)\<close> drops the last element (of an empty array it is the empty array).
\<close>

definition goBack :: "WizardStore \<Rightarrow> bool \<times> WizardStore" where
  "goBack store =
     (if length (historyStack store) = 0 then (False, store)
      else
        (let previousEntry = last (historyStack store)
         in (True,
             \<lparr> state = (state store)\<lparr>
                  currentNodeId := nodeId previousEntry,
                  history := butlast (history (state store)),
                  isComplete := False,
                  flags := entry_flags previousEntry \<rparr>,
               historyStack = butlast (historyStack store) \<rparr>)))"

definition completeWizard :: "WizardStore \<Rightarrow> WizardStore" where
  "completeWizard store = store\<lparr> state := (state store)\<lparr> isComplete := True \<rparr> \<rparr>"

definition resetWizard :: "string \<Rightarrow> WizardStore \<Rightarrow> WizardStore" where
  "resetWizard start store = \<lparr> state = initialState start, historyStack = [] \<rparr>"

text \<open>
  The operations the presentation layer may apply, and the stores reachable from the
  initial one.
\<close>

datatype WizardOp =
    SetCurrentNode string
  | SetAnswer string "int list"
  | ApplyFlags "SetFlag list"
  | AddToHistory string "int list" Flags
  | GoBack
  | CompleteWizard
  | ResetWizard

fun applyOp :: "string \<Rightarrow> WizardOp \<Rightarrow> WizardStore \<Rightarrow> WizardStore" where
  "applyOp start (SetCurrentNode nid) store = setCurrentNode nid store"
| "applyOp start (SetAnswer qid selected) store = setAnswer qid selected store"
| "applyOp start (ApplyFlags flagList) store = storeApplyFlags flagList store"
| "applyOp start (AddToHistory nid selected fl) store = addToHistory nid selected fl store"
| "applyOp start GoBack store = snd (goBack store)"
| "applyOp start CompleteWizard store = completeWizard store"
| "applyOp start ResetWizard store = resetWizard start store"

definition runOps :: "string \<Rightarrow> WizardOp list \<Rightarrow> WizardStore" where
  "runOps start ops = foldl (\<lambda>store op. applyOp start op store) (initialStore start) ops"

section \<open>Notions used in the statements, and example data\<close>

text \<open>The conditions of a route as a list (none when the field is absent).\<close>

definition conditionsOf :: "Route \<Rightarrow> RouteCondition list" where
  "conditionsOf route = (case conditions route of None \<Rightarrow> [] | Some cs \<Rightarrow> cs)"

text \<open>A route matches when every one of its conditions evaluates to true.\<close>

definition routeMatches :: "Route \<Rightarrow> int list \<Rightarrow> Flags \<Rightarrow> bool" where
  "routeMatches route selectedAnswers fl =
     list_all (\<lambda>cond. evaluateCondition cond selectedAnswers fl) (conditionsOf route)"

text \<open>Example data: the two-route node of the routing scenario.\<close>

definition noCondition :: RouteCondition where
  "noCondition = \<lparr> answer_is = None, is_this_exact_match_selected = None,
     if_any_answer_in = None, if_none_selected_in = None, flag_equals = None \<rparr>"

definition scenarioNode :: DecisionNode where
  "scenarioNode = \<lparr> original_id = ''Q1'', question_id = ''Q1'', node_type = Radio,
     routing =
       [\<lparr> conditions = Some [noCondition\<lparr> answer_is := Some 0 \<rparr>], go_to = ''A'', set_flags = None \<rparr>,
        \<lparr> conditions = Some [noCondition\<lparr> answer_is := Some 1 \<rparr>], go_to = ''B'', set_flags = None \<rparr>],
     answer_flags = None \<rparr>"

definition noFlags :: Flags where
  "noFlags = Map.empty"

text \<open>A condition whose only populated field is the exact match on \<open>S\<close>.\<close>

definition exactMatch :: "int list \<Rightarrow> RouteCondition" where
  "exactMatch S = noCondition\<lparr> is_this_exact_match_selected := Some S \<rparr>"

text \<open>Example data: a condition object with four of its fields populated.\<close>

definition mixedCondition :: RouteCondition where
  "mixedCondition = \<lparr> answer_is = Some 0, is_this_exact_match_selected = Some [1, 2],
     if_any_answer_in = None, if_none_selected_in = Some [0],
     flag_equals = Some \<lparr> fe_flag_name = ''flag_x'', fe_value = BoolV True \<rparr> \<rparr>"

text \<open>Example data: a checkbox question with six options, the last one exclusive.\<close>

definition plainOption :: "string \<Rightarrow> QuestionOption" where
  "plainOption i = \<lparr> opt_id = i, opt_text = ''option'', exclusive = None \<rparr>"

definition sixOptions :: "QuestionOption list" where
  "sixOptions = [plainOption ''0'', plainOption ''1'', plainOption ''2'', plainOption ''3'',
     plainOption ''4'', (plainOption ''5'')\<lparr> exclusive := Some True \<rparr>]"

definition checkboxQuestion :: Question where
  "checkboxQuestion = \<lparr> q_id = ''QAIS_1_1'', q_original_id = ''QAIS_1_1'', q_text = ''question'',
     section_title = ''section'', q_type = multiple_choice, required = True,
     options = sixOptions \<rparr>"

text \<open>History and undo stack grow and shrink together.\<close>

definition historyAligned :: "WizardStore \<Rightarrow> bool" where
  "historyAligned store = (length (history (state store)) = length (historyStack store))"

text \<open>Example data: a flag set to true, and a short session.\<close>

definition flagOn :: "string \<Rightarrow> SetFlag" where
  "flagOn name = \<lparr> flag_name = name, flag_value = BoolV True, condition = None \<rparr>"

definition sampleOps :: "WizardOp list" where
  "sampleOps = [SetAnswer ''Q1'' [0], AddToHistory ''Q1'' [0] noFlags,
     ApplyFlags [flagOn ''flag_a''], SetCurrentNode ''END'']"

text \<open>The outcomes of one structure level, in input order, and the bucket of a level.\<close>

definition ofLevel :: "StructureLevel \<Rightarrow> Outcome list \<Rightarrow> Outcome list" where
  "ofLevel l xs = filter (\<lambda>outcome. structure_level outcome = l) xs"

fun bucket :: "StructureLevel \<Rightarrow> GroupedOutcomes \<Rightarrow> Outcome list" where
  "bucket Role g = role g"
| "bucket RiskLevel g = risk_level g"
| "bucket Obligation g = obligation g"

text \<open>Example data: four outcomes, three of them of level \<open>risk_level\<close>.\<close>

definition sampleOutcome :: "string \<Rightarrow> StructureLevel \<Rightarrow> int \<Rightarrow> Outcome" where
  "sampleOutcome name l w = \<lparr> outcome_id = name, structure_level = l, priority_weight = w,
     outcome_risk_level = ''general'', display_color = ''gray'', outcome_text = ''text'',
     applicable_articles = [], is_empty = False \<rparr>"

definition sampleOutcomes :: "Outcome list" where
  "sampleOutcomes = [sampleOutcome ''a'' Role 5, sampleOutcome ''b'' RiskLevel 10,
     sampleOutcome ''c'' RiskLevel 50, sampleOutcome ''d'' RiskLevel 10]"

text \<open>
  Example data: hub nodes; a chain of two hubs, the first of which sets \<open>flag_x\<close> and
  the second of which asks for both \<open>go\<close> and \<open>flag_x\<close>; initial flags with \<open>go\<close> true
  and \<open>flag_x\<close> false; and a hub that routes to itself.
\<close>

definition hubNode :: "string \<Rightarrow> Route list \<Rightarrow> DecisionNode" where
  "hubNode name routes = \<lparr> original_id = name, question_id = name, node_type = Hub,
     routing = routes, answer_flags = None \<rparr>"

definition flagIs :: "string \<Rightarrow> RouteCondition" where
  "flagIs name = noCondition\<lparr> flag_equals :=
     Some \<lparr> fe_flag_name = name, fe_value = BoolV True \<rparr> \<rparr>"

definition chainTree :: NodeTable where
  "chainTree =
     [''hub_a'' \<mapsto> hubNode ''hub_a''
        [\<lparr> conditions = None, go_to = ''hub_b'', set_flags = Some [flagOn ''flag_x''] \<rparr>],
      ''hub_b'' \<mapsto> hubNode ''hub_b''
        [\<lparr> conditions = Some [flagIs ''go'', flagIs ''flag_x''], go_to = ''Q_yes'',
           set_flags = None \<rparr>,
         \<lparr> conditions = None, go_to = ''Q_no'', set_flags = None \<rparr>]]"

definition startFlags :: Flags where
  "startFlags = [''go'' \<mapsto> BoolV True, ''flag_x'' \<mapsto> BoolV False]"

definition loopTree :: NodeTable where
  "loopTree =
     [''hub_a'' \<mapsto> hubNode ''hub_a''
        [\<lparr> conditions = Some [flagIs ''go''], go_to = ''hub_a'', set_flags = None \<rparr>]]"

definition goFlags :: Flags where
  "goFlags = [''go'' \<mapsto> BoolV True]"

text \<open>
  The flag entries configured for one answer index, the nested conditions of an entry,
  the object \<open>{flag_name, value}\<close> pushed for it, and the statement that every nested
  \<open>flag_equals\<close> of an entry holds.
\<close>

definition flagConfigsFor :: "DecisionNode \<Rightarrow> int \<Rightarrow> SetFlag list" where
  "flagConfigsFor node answerIndex =
     (case answer_flags node of
        None \<Rightarrow> []
      | Some answerFlags \<Rightarrow>
          (case answerFlags (toString answerIndex) of
             None \<Rightarrow> []
           | Some answerConfig \<Rightarrow>
               (case afc_set_flags answerConfig of None \<Rightarrow> [] | Some fs \<Rightarrow> fs)))"

definition nestedOf :: "SetFlag \<Rightarrow> RouteCondition list" where
  "nestedOf flagConfig = (case condition flagConfig of None \<Rightarrow> [] | Some conds \<Rightarrow> conds)"

definition bare :: "SetFlag \<Rightarrow> SetFlag" where
  "bare flagConfig = \<lparr> flag_name = flag_name flagConfig, flag_value = flag_value flagConfig,
     condition = None \<rparr>"

definition flagEqualsHold :: "Flags \<Rightarrow> SetFlag \<Rightarrow> bool" where
  "flagEqualsHold currentFlags flagConfig =
     (\<forall>cond \<in> set (nestedOf flagConfig). \<forall>fe. flag_equals cond = Some fe \<longrightarrow>
         currentFlags (fe_flag_name fe) = Some (fe_value fe))"

text \<open>
  Example data: answer 0 sets \<open>flag_a\<close> under two conditions on the answers and
  \<open>flag_b\<close> under a condition on the flag \<open>flag_x\<close>.
\<close>

definition guardedNode :: DecisionNode where
  "guardedNode = \<lparr> original_id = ''Q2'', question_id = ''Q2'', node_type = Checkbox,
     routing = [],
     answer_flags = Some
       [''0'' \<mapsto> \<lparr> afc_set_flags = Some
           [\<lparr> flag_name = ''flag_a'', flag_value = BoolV True,
              condition = Some [noCondition\<lparr> answer_is := Some 7 \<rparr>,
                                noCondition\<lparr> if_any_answer_in := Some [8, 9] \<rparr>] \<rparr>,
            \<lparr> flag_name = ''flag_b'', flag_value = BoolV True,
              condition = Some [flagIs ''flag_x''] \<rparr>],
          afc_exclusive = None \<rparr>] \<rparr>"

text \<open>
  Step 3 of the validation: a bound of the rule is violated (a bound that is \<open>0\<close> or
  absent is never checked), and the errors these violations produce.
\<close>

definition minViolated :: "ValidationRule option \<Rightarrow> int list \<Rightarrow> bool" where
  "minViolated rule sel =
     (case rule of None \<Rightarrow> False
      | Some r \<Rightarrow> min_selections r \<noteq> 0 \<and> int (length sel) < min_selections r)"

definition maxViolated :: "ValidationRule option \<Rightarrow> int list \<Rightarrow> bool" where
  "maxViolated rule sel =
     (case rule of None \<Rightarrow> False
      | Some r \<Rightarrow>
          (case max_selections r of None \<Rightarrow> False
           | Some m \<Rightarrow> m \<noteq> 0 \<and> int (length sel) > m))"

definition boundErrors :: "ValidationRule option \<Rightarrow> int list \<Rightarrow> string list" where
  "boundErrors rule sel =
     (case rule of
        None \<Rightarrow> []
      | Some r \<Rightarrow>
          (if minViolated rule sel
           then [''Please select at least '' @ toString (min_selections r) @ '' option(s)'']
           else [])
          @ (case max_selections r of
               None \<Rightarrow> []
             | Some m \<Rightarrow>
                 (if maxViolated rule sel
                  then [''Please select at most '' @ toString m @ '' option(s)'']
                  else [])))"

text \<open>
  Step 4: some selected value is the number parsed from the id of an option marked
  exclusive. In the data the id of an option is its index written in decimal.
\<close>

definition exclusiveSelected :: "Question \<Rightarrow> int list \<Rightarrow> bool" where
  "exclusiveSelected q sel =
     (\<exists>ans \<in> set sel. \<exists>opt \<in> set (options q).
         exclusive opt = Some True \<and> parseInt (opt_id opt) = Some ans)"

definition idsAreIndices :: "Question \<Rightarrow> bool" where
  "idsAreIndices q =
     (\<forall>k < length (options q). parseInt (opt_id (options q ! k)) = Some (int k))"

text \<open>Example data: a rule that allows one selection at most.\<close>

definition maxOneRule :: ValidationRule where
  "maxOneRule = \<lparr> rule_required = True, rule_type = multiple_choice, min_selections = 1,
     max_selections = Some 1 \<rparr>"

section \<open>Routing: first matching route\<close>

lemma evaluateAllConditions_routeMatches:
  "evaluateAllConditions (conditions route) sel fl = routeMatches route sel fl"
  by (auto simp add: evaluateAllConditions_def routeMatches_def conditionsOf_def
      split: option.splits)

lemma routeLoop_None:
  "routeLoop rs sel fl = None \<longleftrightarrow> (\<forall>r \<in> set rs. \<not> routeMatches r sel fl)"
  by (induction rs) (simp_all add: evaluateAllConditions_routeMatches)

lemma routeLoop_Some:
  "routeLoop rs sel fl = Some res \<Longrightarrow>
     \<exists>i < length rs. routeMatches (rs ! i) sel fl
        \<and> (\<forall>j < i. \<not> routeMatches (rs ! j) sel fl)
        \<and> res = \<lparr> nextNodeId = go_to (rs ! i),
                   flagsToSet = (case set_flags (rs ! i) of None \<Rightarrow> [] | Some fs \<Rightarrow> fs) \<rparr>"
proof (induction rs)
  case Nil
  then show ?case by simp
next
  case (Cons r rs)
  show ?case
  proof (cases "routeMatches r sel fl")
    case True
    with Cons.prems have "res = \<lparr> nextNodeId = go_to r,
        flagsToSet = (case set_flags r of None \<Rightarrow> [] | Some fs \<Rightarrow> fs) \<rparr>"
      by (simp add: evaluateAllConditions_routeMatches)
    with True show ?thesis by (intro exI[of _ 0]) simp
  next
    case False
    with Cons.prems have "routeLoop rs sel fl = Some res"
      by (simp add: evaluateAllConditions_routeMatches)
    from Cons.IH[OF this] obtain i where i: "i < length rs"
      "routeMatches (rs ! i) sel fl" "\<forall>j < i. \<not> routeMatches (rs ! j) sel fl"
      "res = \<lparr> nextNodeId = go_to (rs ! i),
               flagsToSet = (case set_flags (rs ! i) of None \<Rightarrow> [] | Some fs \<Rightarrow> fs) \<rparr>"
      by blast
    have "\<forall>j < Suc i. \<not> routeMatches ((r # rs) ! j) sel fl"
    proof (intro allI impI)
      fix j assume "j < Suc i"
      then show "\<not> routeMatches ((r # rs) ! j) sel fl"
        using False i(3) by (cases j) simp_all
    qed
    with i show ?thesis by (intro exI[of _ "Suc i"]) simp
  qed
qed

text \<open>
  C1. \<open>evaluateRouting\<close> is a function of (node, selection, flags). It returns \<open>None\<close>
  exactly when no route of the node matches; otherwise it returns the destination and
  the fl-to-set of the first route, in declaration order, whose conditions all
  evaluate to true.
\<close>

theorem evaluateRouting_first_match:
  "(evaluateRouting node sel fl = None
      \<longleftrightarrow> (\<forall>r \<in> set (routing node). \<not> routeMatches r sel fl))
   \<and> (\<forall>res. evaluateRouting node sel fl = Some res \<longrightarrow>
        (\<exists>i < length (routing node).
            routeMatches (routing node ! i) sel fl
          \<and> (\<forall>j < i. \<not> routeMatches (routing node ! j) sel fl)
          \<and> nextNodeId res = go_to (routing node ! i)
          \<and> flagsToSet res =
              (case set_flags (routing node ! i) of None \<Rightarrow> [] | Some fs \<Rightarrow> fs)))"
proof (intro conjI allI impI)
  show "evaluateRouting node sel fl = None
      \<longleftrightarrow> (\<forall>r \<in> set (routing node). \<not> routeMatches r sel fl)"
    by (simp add: evaluateRouting_def routeLoop_None)
next
  fix res
  assume "evaluateRouting node sel fl = Some res"
  then have "routeLoop (routing node) sel fl = Some res"
    by (simp add: evaluateRouting_def)
  from routeLoop_Some[OF this] obtain i where "i < length (routing node)"
      "routeMatches (routing node ! i) sel fl"
      "\<forall>j < i. \<not> routeMatches (routing node ! j) sel fl"
      "res = \<lparr> nextNodeId = go_to (routing node ! i),
               flagsToSet = (case set_flags (routing node ! i) of None \<Rightarrow> [] | Some fs \<Rightarrow> fs) \<rparr>"
    by blast
  then show "\<exists>i < length (routing node).
            routeMatches (routing node ! i) sel fl
          \<and> (\<forall>j < i. \<not> routeMatches (routing node ! j) sel fl)
          \<and> nextNodeId res = go_to (routing node ! i)
          \<and> flagsToSet res =
              (case set_flags (routing node ! i) of None \<Rightarrow> [] | Some fs \<Rightarrow> fs)"
    by (intro exI[of _ i]) simp
qed

theorem evaluateRouting_first_match_witness:
  "evaluateRouting scenarioNode [1] noFlags = Some \<lparr> nextNodeId = ''B'', flagsToSet = [] \<rparr>
   \<and> (\<exists>i < length (routing scenarioNode).
          routeMatches (routing scenarioNode ! i) [1] noFlags
        \<and> (\<forall>j < i. \<not> routeMatches (routing scenarioNode ! j) [1] noFlags)
        \<and> go_to (routing scenarioNode ! i) = ''B'')"
proof -
  have e: "evaluateRouting scenarioNode [1] noFlags
             = Some \<lparr> nextNodeId = ''B'', flagsToSet = [] \<rparr>"
    by (simp add: evaluateRouting_def scenarioNode_def noCondition_def
        evaluateAllConditions_def evaluateCondition_def)
  from evaluateRouting_first_match[of scenarioNode "[1]" noFlags] e
  show ?thesis by auto
qed

section \<open>Condition evaluator\<close>

lemma exact_match_raw:
  "answer_is c = None \<Longrightarrow> is_this_exact_match_selected c = Some S \<Longrightarrow>
   evaluateCondition c sel fl = (length sel = length S \<and> set S \<subseteq> set sel)"
  by (auto simp add: evaluateCondition_def list_all_iff)

lemma distinct_subset_same_length:
  assumes "distinct S" "length sel = length S" "set S \<subseteq> set sel"
  shows "set sel = set S"
proof -
  have "card (set sel) \<le> length sel" by (rule card_length)
  also have "\<dots> = card (set S)" using assms(1,2) by (simp add: distinct_card)
  finally have "card (set sel) \<le> card (set S)" .
  with assms(3) show ?thesis
    using card_seteq[of "set sel" "set S"] by simp
qed

text \<open>
  C2. For an exact-match condition with required set \<open>S\<close> (a set: its list holds no
  element twice) and any selection list, the evaluator returns true if and only if the
  selection has as many entries as \<open>S\<close> and the same members, whatever the order; for
  a selection without repeated entries that is equal cardinality and equal membership
  of the two sets. Requirement \<open>[0,2]\<close> matches selection \<open>[2,0]\<close> and does not match
  \<open>[0,1,2]\<close>.
\<close>

theorem exact_match_order_insensitive:
  "(answer_is c = None \<and> is_this_exact_match_selected c = Some S \<and> distinct S \<longrightarrow>
      evaluateCondition c sel fl = (length sel = length S \<and> set sel = set S))
   \<and> (answer_is c = None \<and> is_this_exact_match_selected c = Some S \<and> distinct S
        \<and> distinct sel \<longrightarrow>
      evaluateCondition c sel fl = (card (set sel) = card (set S) \<and> set sel = set S))
   \<and> evaluateCondition (exactMatch [0, 2]) [2, 0] fl
   \<and> \<not> evaluateCondition (exactMatch [0, 2]) [0, 1, 2] fl"
proof (intro conjI impI)
  assume a: "answer_is c = None \<and> is_this_exact_match_selected c = Some S \<and> distinct S"
  then have "evaluateCondition c sel fl = (length sel = length S \<and> set S \<subseteq> set sel)"
    by (simp add: exact_match_raw)
  also have "\<dots> = (length sel = length S \<and> set sel = set S)"
    using a distinct_subset_same_length[of S sel] by auto
  finally show "evaluateCondition c sel fl = (length sel = length S \<and> set sel = set S)" .
next
  assume a: "answer_is c = None \<and> is_this_exact_match_selected c = Some S \<and> distinct S
        \<and> distinct sel"
  then have "evaluateCondition c sel fl = (length sel = length S \<and> set S \<subseteq> set sel)"
    by (simp add: exact_match_raw)
  also have "\<dots> = (length sel = length S \<and> set sel = set S)"
    using a distinct_subset_same_length[of S sel] by auto
  also have "\<dots> = (card (set sel) = card (set S) \<and> set sel = set S)"
    using a by (simp add: distinct_card)
  finally show "evaluateCondition c sel fl
      = (card (set sel) = card (set S) \<and> set sel = set S)" .
next
  show "evaluateCondition (exactMatch [0, 2]) [2, 0] fl"
    by (simp add: evaluateCondition_def exactMatch_def noCondition_def)
next
  show "\<not> evaluateCondition (exactMatch [0, 2]) [0, 1, 2] fl"
    by (simp add: evaluateCondition_def exactMatch_def noCondition_def)
qed

theorem exact_match_order_insensitive_witness:
  "distinct [0, 2 :: int] \<and> evaluateCondition (exactMatch [0, 2]) [2, 0] noFlags
   \<and> length [2, 0 :: int] = length [0, 2 :: int] \<and> set [2, 0 :: int] = set [0, 2]"
  using exact_match_order_insensitive[of "exactMatch [0, 2]" "[0, 2]" "[2, 0]" noFlags]
  by (auto simp add: exactMatch_def noCondition_def)

text \<open>
  C9. The evaluator consults the first populated field only, in the order
  \<open>answer_is\<close>, exact match, any-in, none-in, flag-equals: its result is fixed by that
  field, whatever the later fields hold. With no field populated it returns true.
\<close>

theorem evaluateCondition_first_populated_field:
  "(answer_is c = Some a \<longrightarrow> evaluateCondition c sel fl = (a \<in> set sel))
   \<and> (answer_is c = None \<and> is_this_exact_match_selected c = Some S \<longrightarrow>
        evaluateCondition c sel fl = (length sel = length S \<and> set S \<subseteq> set sel))
   \<and> (answer_is c = None \<and> is_this_exact_match_selected c = None
        \<and> if_any_answer_in c = Some A \<longrightarrow>
        evaluateCondition c sel fl = (set A \<inter> set sel \<noteq> {}))
   \<and> (answer_is c = None \<and> is_this_exact_match_selected c = None
        \<and> if_any_answer_in c = None \<and> if_none_selected_in c = Some N \<longrightarrow>
        evaluateCondition c sel fl = (set N \<inter> set sel = {}))
   \<and> (answer_is c = None \<and> is_this_exact_match_selected c = None
        \<and> if_any_answer_in c = None \<and> if_none_selected_in c = None
        \<and> flag_equals c = Some fe \<longrightarrow>
        evaluateCondition c sel fl = (fl (fe_flag_name fe) = Some (fe_value fe)))
   \<and> (answer_is c = None \<and> is_this_exact_match_selected c = None
        \<and> if_any_answer_in c = None \<and> if_none_selected_in c = None
        \<and> flag_equals c = None \<longrightarrow> evaluateCondition c sel fl)"
  by (auto simp add: evaluateCondition_def list_all_iff list_ex_iff)

theorem evaluateCondition_first_populated_field_witness:
  "answer_is mixedCondition = Some 0
   \<and> is_this_exact_match_selected mixedCondition = Some [1, 2]
   \<and> if_none_selected_in mixedCondition = Some [0]
   \<and> evaluateCondition mixedCondition [0] noFlags = ((0::int) \<in> set [0])
   \<and> evaluateCondition mixedCondition [0] noFlags"
  using evaluateCondition_first_populated_field[of mixedCondition 0 "[0]" noFlags]
  by (simp add: mixedCondition_def)

section \<open>Selection toggling\<close>

lemma exclusiveIndices_set:
  "set (filter (\<lambda>idx. idx \<noteq> - 1)
              (map (\<lambda>(idx, opt). if exclusive opt = Some True then int idx else - 1)
                 (enumerate n xs)))
   = {int k | k. n \<le> k \<and> k < n + length xs \<and> exclusive (xs ! (k - n)) = Some True}"
proof (induction xs arbitrary: n)
  case Nil
  then show ?case by simp
next
  case (Cons x xs)
  have split: "{int k | k. n \<le> k \<and> k < n + length (x # xs) \<and> exclusive ((x # xs) ! (k - n)) = Some True}
     = (if exclusive x = Some True then {int n} else {})
       \<union> {int k | k. Suc n \<le> k \<and> k < Suc n + length xs \<and> exclusive (xs ! (k - Suc n)) = Some True}"
    (is "?L = ?R")
  proof (intro set_eqI iffI)
    fix i assume "i \<in> ?L"
    then obtain k where k: "i = int k" "n \<le> k" "k < n + length (x # xs)"
        "exclusive ((x # xs) ! (k - n)) = Some True" by blast
    show "i \<in> ?R"
    proof (cases "k = n")
      case True
      with k show ?thesis by simp
    next
      case False
      with k have "Suc n \<le> k" "k < Suc n + length xs" by simp_all
      moreover from False k have "k - n = Suc (k - Suc n)" by arith
      with k have "exclusive (xs ! (k - Suc n)) = Some True" by simp
      ultimately show ?thesis using k(1) by blast
    qed
  next
    fix i assume r: "i \<in> ?R"
    show "i \<in> ?L"
    proof (cases "i = int n \<and> exclusive x = Some True")
      case True
      then show ?thesis by (intro CollectI exI[of _ n]) simp
    next
      case False
      with r obtain k where k: "i = int k" "Suc n \<le> k" "k < Suc n + length xs"
          "exclusive (xs ! (k - Suc n)) = Some True"
        by (auto split: if_splits)
      moreover from k have "k - n = Suc (k - Suc n)" by arith
      ultimately have "exclusive ((x # xs) ! (k - n)) = Some True" by simp
      with k show ?thesis by (intro CollectI exI[of _ k]) simp
    qed
  qed
  show ?case
    unfolding split using Cons.IH[of "Suc n"] by auto
qed

lemma exclusiveIndices_iff:
  "i \<in> set (filter (\<lambda>idx. idx \<noteq> - 1)
              (map (\<lambda>(idx, opt). if exclusive opt = Some True then int idx else - 1)
                 (enumerate 0 (options q))))
   \<longleftrightarrow> isExclusiveOption q i"
proof -
  have "(\<exists>k. i = int k \<and> k < length (options q) \<and> exclusive (options q ! k) = Some True)
      \<longleftrightarrow> (0 \<le> i \<and> nat i < length (options q) \<and> exclusive (options q ! nat i) = Some True)"
  proof
    assume "\<exists>k. i = int k \<and> k < length (options q) \<and> exclusive (options q ! k) = Some True"
    then obtain k where "i = int k" "k < length (options q)"
        "exclusive (options q ! k) = Some True" by blast
    then show "0 \<le> i \<and> nat i < length (options q) \<and> exclusive (options q ! nat i) = Some True"
      by simp
  next
    assume "0 \<le> i \<and> nat i < length (options q) \<and> exclusive (options q ! nat i) = Some True"
    then show "\<exists>k. i = int k \<and> k < length (options q) \<and> exclusive (options q ! k) = Some True"
      by (intro exI[of _ "nat i"]) simp
  qed
  then show ?thesis
    unfolding exclusiveIndices_set isExclusiveOption_def by auto
qed

text \<open>
  C4. \<open>handleSelectionWithExclusivity\<close>: for \<open>single_choice\<close>, the empty selection
  when the toggled index was selected and the toggled index alone otherwise; for
  \<open>multiple_choice\<close>, the selection without the toggled index when it was selected;
  otherwise the toggled index alone when it is marked exclusive, and the selection
  without its exclusive indices, followed by the toggled index, when it is not.
\<close>

theorem handleSelectionWithExclusivity_cases:
  "(q_type q = single_choice \<longrightarrow>
      handleSelectionWithExclusivity q sel t = (if t \<in> set sel then [] else [t]))
   \<and> (q_type q = multiple_choice \<and> t \<in> set sel \<longrightarrow>
      handleSelectionWithExclusivity q sel t = filter (\<lambda>i. i \<noteq> t) sel)
   \<and> (q_type q = multiple_choice \<and> t \<notin> set sel \<and> isExclusiveOption q t \<longrightarrow>
      handleSelectionWithExclusivity q sel t = [t])
   \<and> (q_type q = multiple_choice \<and> t \<notin> set sel \<and> \<not> isExclusiveOption q t \<longrightarrow>
      handleSelectionWithExclusivity q sel t
        = filter (\<lambda>i. \<not> isExclusiveOption q i) sel @ [t])"
proof -
  have ex: "filter (\<lambda>opt. opt \<notin> set (filter (\<lambda>idx. idx \<noteq> - 1)
              (map (\<lambda>(idx, opt). if exclusive opt = Some True then int idx else - 1)
                 (enumerate 0 (options q))))) sel
          = filter (\<lambda>i. \<not> isExclusiveOption q i) sel"
    by (simp only: exclusiveIndices_iff)
  show ?thesis
    unfolding handleSelectionWithExclusivity_def Let_def ex
    by simp
qed

theorem handleSelectionWithExclusivity_cases_witness:
  "q_type checkboxQuestion = multiple_choice
   \<and> isExclusiveOption checkboxQuestion 5 \<and> \<not> isExclusiveOption checkboxQuestion 3
   \<and> handleSelectionWithExclusivity checkboxQuestion [1, 2] 5 = [5]
   \<and> handleSelectionWithExclusivity checkboxQuestion [5] 3 = [3]
   \<and> handleSelectionWithExclusivity checkboxQuestion [1, 2] 2 = [1]
   \<and> handleSelectionWithExclusivity (checkboxQuestion\<lparr> q_type := single_choice \<rparr>) [1] 1 = []
   \<and> handleSelectionWithExclusivity (checkboxQuestion\<lparr> q_type := single_choice \<rparr>) [1] 2 = [2]"
proof -
  have x5: "isExclusiveOption checkboxQuestion 5"
    by (simp add: isExclusiveOption_def checkboxQuestion_def sixOptions_def plainOption_def)
  have x3: "\<not> isExclusiveOption checkboxQuestion 3"
    by (simp add: isExclusiveOption_def checkboxQuestion_def sixOptions_def plainOption_def)
  have ty: "q_type checkboxQuestion = multiple_choice"
    by (simp add: checkboxQuestion_def)
  show ?thesis
    using handleSelectionWithExclusivity_cases[of checkboxQuestion "[1, 2]" 5]
      handleSelectionWithExclusivity_cases[of checkboxQuestion "[5]" 3]
      handleSelectionWithExclusivity_cases[of checkboxQuestion "[1, 2]" 2]
      handleSelectionWithExclusivity_cases[of "checkboxQuestion\<lparr> q_type := single_choice \<rparr>" "[1]" 1]
      handleSelectionWithExclusivity_cases[of "checkboxQuestion\<lparr> q_type := single_choice \<rparr>" "[1]" 2]
      x5 x3 ty
    by simp
qed

section \<open>Back navigation\<close>

lemma applyOp_historyAligned:
  "historyAligned store \<Longrightarrow> historyAligned (applyOp start op store)"
  by (cases op)
     (simp_all add: historyAligned_def setCurrentNode_def setAnswer_def storeApplyFlags_def
        addToHistory_def goBack_def completeWizard_def resetWizard_def initialState_def Let_def)

lemma foldl_applyOp_historyAligned:
  "historyAligned store \<Longrightarrow>
   historyAligned (foldl (\<lambda>store op. applyOp start op store) store ops)"
  by (induction ops arbitrary: store) (simp_all add: applyOp_historyAligned)

lemma runOps_historyAligned: "historyAligned (runOps start ops)"
  unfolding runOps_def
  by (rule foldl_applyOp_historyAligned)
     (simp add: historyAligned_def initialStore_def initialState_def)

text \<open>
  C5. \<open>goBack\<close> on an empty undo stack returns false and the store as it was.
  Otherwise it returns true, pops the last snapshot, restores the current node id and
  the flags to that snapshot's values, drops the last entry of the visited-node
  history, clears the completion flag and leaves the answers alone. In every store
  reachable from the initial one the history then shrinks by exactly one entry.
\<close>

theorem goBack_spec:
  "(historyStack store = [] \<longrightarrow> goBack store = (False, store))
   \<and> (historyStack store \<noteq> [] \<longrightarrow>
        fst (goBack store) = True
      \<and> historyStack (snd (goBack store)) = butlast (historyStack store)
      \<and> currentNodeId (state (snd (goBack store))) = nodeId (last (historyStack store))
      \<and> flags (state (snd (goBack store))) = entry_flags (last (historyStack store))
      \<and> history (state (snd (goBack store))) = butlast (history (state store))
      \<and> isComplete (state (snd (goBack store))) = False
      \<and> answers (state (snd (goBack store))) = answers (state store))
   \<and> (historyStack store \<noteq> [] \<and> store = runOps start ops \<longrightarrow>
        Suc (length (history (state (snd (goBack store))))) = length (history (state store)))"
proof (intro conjI impI)
  assume "historyStack store \<noteq> [] \<and> store = runOps start ops"
  then have ne: "historyStack store \<noteq> []" and "historyAligned store"
    using runOps_historyAligned[of start ops] by auto
  then have "history (state store) \<noteq> []"
    by (auto simp add: historyAligned_def)
  with ne show "Suc (length (history (state (snd (goBack store)))))
      = length (history (state store))"
    by (simp add: goBack_def Let_def)
qed (simp_all add: goBack_def Let_def)

theorem goBack_spec_witness:
  "historyStack (initialStore ''Q1'') = []
   \<and> goBack (initialStore ''Q1'') = (False, initialStore ''Q1'')
   \<and> historyStack (runOps ''Q1'' sampleOps) \<noteq> []
   \<and> isComplete (state (runOps ''Q1'' sampleOps))
   \<and> flags (state (runOps ''Q1'' sampleOps)) ''flag_a'' = Some (BoolV True)
   \<and> fst (goBack (runOps ''Q1'' sampleOps)) = True
   \<and> historyStack (snd (goBack (runOps ''Q1'' sampleOps))) = []
   \<and> currentNodeId (state (snd (goBack (runOps ''Q1'' sampleOps)))) = ''Q1''
   \<and> flags (state (snd (goBack (runOps ''Q1'' sampleOps)))) = noFlags
   \<and> history (state (snd (goBack (runOps ''Q1'' sampleOps)))) = []
   \<and> isComplete (state (snd (goBack (runOps ''Q1'' sampleOps)))) = False
   \<and> Suc (length (history (state (snd (goBack (runOps ''Q1'' sampleOps))))))
       = length (history (state (runOps ''Q1'' sampleOps)))"
proof -
  have r: "runOps ''Q1'' sampleOps =
      \<lparr> state = \<lparr> currentNodeId = ''END'', answers = [''Q1'' \<mapsto> [0]],
                   flags = noFlags(''flag_a'' \<mapsto> BoolV True),
                   history = [''Q1''], isComplete = True \<rparr>,
        historyStack = [\<lparr> nodeId = ''Q1'', entry_answers = [0], entry_flags = noFlags \<rparr>] \<rparr>"
    by (simp add: runOps_def sampleOps_def initialStore_def initialState_def
        setCurrentNode_def setAnswer_def storeApplyFlags_def addToHistory_def
        applyFlags_def flagOn_def noFlags_def)
  have e: "historyStack (initialStore ''Q1'') = []"
    by (simp add: initialStore_def)
  show ?thesis
    using goBack_spec[of "initialStore ''Q1''" "''Q1''" "[]"]
      goBack_spec[of "runOps ''Q1'' sampleOps" "''Q1''" sampleOps] e
    by (simp add: r)
qed

section \<open>Grouping of outcomes\<close>

lemma foldl_pushOutcome:
  "foldl pushOutcome g xs =
     \<lparr> role = role g @ ofLevel Role xs,
       risk_level = risk_level g @ ofLevel RiskLevel xs,
       obligation = obligation g @ ofLevel Obligation xs \<rparr>"
proof (induction xs arbitrary: g)
  case Nil
  then show ?case by (simp add: ofLevel_def)
next
  case (Cons x xs)
  have "foldl pushOutcome g (x # xs) = foldl pushOutcome (pushOutcome g x) xs"
    by simp
  also have "\<dots> = \<lparr> role = role (pushOutcome g x) @ ofLevel Role xs,
       risk_level = risk_level (pushOutcome g x) @ ofLevel RiskLevel xs,
       obligation = obligation (pushOutcome g x) @ ofLevel Obligation xs \<rparr>"
    by (rule Cons.IH)
  also have "\<dots> = \<lparr> role = role g @ ofLevel Role (x # xs),
       risk_level = risk_level g @ ofLevel RiskLevel (x # xs),
       obligation = obligation g @ ofLevel Obligation (x # xs) \<rparr>"
    by (cases "structure_level x") (simp_all add: pushOutcome_def ofLevel_def)
  finally show ?case .
qed

lemma bucket_groupOutcomesByLevel:
  "bucket l (groupOutcomesByLevel xs) = sortByWeight (ofLevel l xs)"
  by (cases l) (simp_all add: groupOutcomesByLevel_def foldl_pushOutcome)

lemma sorted_sortByWeight:
  "sorted_wrt (\<lambda>a b. priority_weight a \<ge> priority_weight b) (sortByWeight xs)"
proof -
  have "sorted (map (\<lambda>outcome. - priority_weight outcome) (sortByWeight xs))"
    unfolding sortByWeight_def by (rule sorted_sort_key)
  then show ?thesis by (simp add: sorted_map)
qed

lemma stable_sortByWeight:
  "filter (\<lambda>outcome. priority_weight outcome = w) (sortByWeight xs)
     = filter (\<lambda>outcome. priority_weight outcome = w) xs"
  using sort_key_stable[of "\<lambda>outcome. - priority_weight outcome" "- w" xs]
  by (simp add: sortByWeight_def)

text \<open>
  C6. \<open>groupOutcomesByLevel\<close> yields the three buckets \<open>role\<close>, \<open>risk_level\<close> and
  \<open>obligation\<close>. The bucket of a level holds exactly the input outcomes of that level:
  an outcome occurs in the bucket of its own level as often as in the input, and in no
  other bucket, so the three buckets together are the input. Each bucket is sorted by
  priority weight descending, and outcomes of equal weight keep their input order.
\<close>

theorem groupOutcomesByLevel_spec:
  "mset (bucket l (groupOutcomesByLevel xs)) = mset (ofLevel l xs)
   \<and> count (mset (bucket l (groupOutcomesByLevel xs))) x
        = (if structure_level x = l then count (mset xs) x else 0)
   \<and> mset (role (groupOutcomesByLevel xs)) + mset (risk_level (groupOutcomesByLevel xs))
        + mset (obligation (groupOutcomesByLevel xs)) = mset xs
   \<and> sorted_wrt (\<lambda>a b. priority_weight a \<ge> priority_weight b)
        (bucket l (groupOutcomesByLevel xs))
   \<and> filter (\<lambda>outcome. priority_weight outcome = w) (bucket l (groupOutcomesByLevel xs))
        = filter (\<lambda>outcome. priority_weight outcome = w) (ofLevel l xs)"
proof (intro conjI)
  show m: "mset (bucket l (groupOutcomesByLevel xs)) = mset (ofLevel l xs)"
    by (simp add: bucket_groupOutcomesByLevel sortByWeight_def)
  show "count (mset (bucket l (groupOutcomesByLevel xs))) x
        = (if structure_level x = l then count (mset xs) x else 0)"
    by (simp add: m ofLevel_def)
  have "mset (ofLevel Role xs) + mset (ofLevel RiskLevel xs) + mset (ofLevel Obligation xs)
      = mset xs"
  proof (induction xs)
    case Nil
    then show ?case by (simp add: ofLevel_def)
  next
    case (Cons y ys)
    then show ?case by (cases "structure_level y") (simp_all add: ofLevel_def)
  qed
  then show "mset (role (groupOutcomesByLevel xs)) + mset (risk_level (groupOutcomesByLevel xs))
        + mset (obligation (groupOutcomesByLevel xs)) = mset xs"
    using bucket_groupOutcomesByLevel[of Role xs] bucket_groupOutcomesByLevel[of RiskLevel xs]
      bucket_groupOutcomesByLevel[of Obligation xs]
    by (simp add: sortByWeight_def)
  show "sorted_wrt (\<lambda>a b. priority_weight a \<ge> priority_weight b)
        (bucket l (groupOutcomesByLevel xs))"
    by (simp only: bucket_groupOutcomesByLevel sorted_sortByWeight)
  show "filter (\<lambda>outcome. priority_weight outcome = w) (bucket l (groupOutcomesByLevel xs))
        = filter (\<lambda>outcome. priority_weight outcome = w) (ofLevel l xs)"
    by (simp only: bucket_groupOutcomesByLevel stable_sortByWeight)
qed

theorem groupOutcomesByLevel_spec_witness:
  "groupOutcomesByLevel sampleOutcomes =
     \<lparr> role = [sampleOutcome ''a'' Role 5],
       risk_level = [sampleOutcome ''c'' RiskLevel 50, sampleOutcome ''b'' RiskLevel 10,
                     sampleOutcome ''d'' RiskLevel 10],
       obligation = [] \<rparr>
   \<and> sorted_wrt (\<lambda>a b. priority_weight a \<ge> priority_weight b)
        (bucket RiskLevel (groupOutcomesByLevel sampleOutcomes))
   \<and> filter (\<lambda>outcome. priority_weight outcome = 10)
        (bucket RiskLevel (groupOutcomesByLevel sampleOutcomes))
      = [sampleOutcome ''b'' RiskLevel 10, sampleOutcome ''d'' RiskLevel 10]"
proof -
  have g: "groupOutcomesByLevel sampleOutcomes =
     \<lparr> role = [sampleOutcome ''a'' Role 5],
       risk_level = [sampleOutcome ''c'' RiskLevel 50, sampleOutcome ''b'' RiskLevel 10,
                     sampleOutcome ''d'' RiskLevel 10],
       obligation = [] \<rparr>"
    by (simp add: groupOutcomesByLevel_def sampleOutcomes_def sampleOutcome_def
        pushOutcome_def sortByWeight_def)
  have f: "filter (\<lambda>outcome. priority_weight outcome = 10) (ofLevel RiskLevel sampleOutcomes)
      = [sampleOutcome ''b'' RiskLevel 10, sampleOutcome ''d'' RiskLevel 10]"
    by (simp add: ofLevel_def sampleOutcomes_def sampleOutcome_def)
  show ?thesis
    using groupOutcomesByLevel_spec[of RiskLevel sampleOutcomes "sampleOutcome ''b'' RiskLevel 10" 10] g f
    by simp
qed

section \<open>Hub resolution\<close>

lemma hubLoop_done:
  "\<not> i < maxIterations \<Longrightarrow> hubLoop nodes i nid fl acc = (i, nid, fl, acc)"
  by (simp add: hubLoop.simps)

lemma applyFlags_merge:
  "applyFlags fl xs = fl ++ map_of (rev (flagPairs xs))"
proof (induction xs arbitrary: fl)
  case Nil
  then show ?case by (simp add: applyFlags_def)
next
  case (Cons x xs)
  have "applyFlags fl (x # xs) = applyFlags (fl(flag_name x \<mapsto> flag_value x)) xs"
    by (simp add: applyFlags_def)
  also have "\<dots> = fl(flag_name x \<mapsto> flag_value x) ++ map_of (rev (flagPairs xs))"
    by (rule Cons.IH)
  also have "\<dots> = fl ++ ([flag_name x \<mapsto> flag_value x] ++ map_of (rev (flagPairs xs)))"
    by (simp add: map_add_def fun_eq_iff split: option.splits)
  also have "\<dots> = fl ++ map_of (rev (flagPairs (x # xs)))"
    by simp
  finally show ?case .
qed

lemma hubLoop_hop_None:
  "i < maxIterations \<Longrightarrow> hubHop nodes (nid, fl, acc) = None \<Longrightarrow>
   hubLoop nodes i nid fl acc = (i + 1, nid, fl, acc)"
  by (subst hubLoop.simps) (simp add: hubHop_def split: option.splits if_splits)

lemma hubLoop_hop_Some:
  "i < maxIterations \<Longrightarrow> hubHop nodes (nid, fl, acc) = Some (nid2, fl2, acc2) \<Longrightarrow>
   hubLoop nodes i nid fl acc = hubLoop nodes (i + 1) nid2 fl2 acc2"
  by (subst hubLoop.simps)
     (auto simp add: hubHop_def applyFlags_merge split: option.splits if_splits)

lemma hubLoop_hops:
  "maxIterations - i = d \<Longrightarrow> hubLoop nodes i nid fl acc = (it, nid', fl', acc') \<Longrightarrow>
   \<exists>k \<le> d. hubHops nodes k (nid, fl, acc) = Some (nid', fl', acc')
        \<and> (k < d \<longrightarrow> hubHop nodes (nid', fl', acc') = None)"
proof (induction d arbitrary: i nid fl acc)
  case 0
  then have "\<not> i < maxIterations" by simp
  with "0.prems"(2) have "nid' = nid" "fl' = fl" "acc' = acc"
    by (simp_all add: hubLoop_done)
  then show ?case by simp
next
  case (Suc d)
  then have lt: "i < maxIterations" by simp
  show ?case
  proof (cases "hubHop nodes (nid, fl, acc)")
    case None
    with lt Suc.prems(2) have "nid' = nid" "fl' = fl" "acc' = acc"
      by (simp_all add: hubLoop_hop_None)
    with None show ?thesis by (intro exI[of _ 0]) simp
  next
    case (Some s2)
    obtain nid2 fl2 acc2 where s2: "s2 = (nid2, fl2, acc2)" by (cases s2)
    with Some lt Suc.prems(2) have "hubLoop nodes (i + 1) nid2 fl2 acc2 = (it, nid', fl', acc')"
      by (simp add: hubLoop_hop_Some)
    moreover from Suc.prems(1) have "maxIterations - (i + 1) = d" by simp
    ultimately obtain k where k: "k \<le> d" "hubHops nodes k (nid2, fl2, acc2) = Some (nid', fl', acc')"
        "k < d \<longrightarrow> hubHop nodes (nid', fl', acc') = None"
      using Suc.IH by blast
    with Some s2 show ?thesis by (intro exI[of _ "Suc k"]) simp
  qed
qed

lemma hubLoop_after_hops:
  "hubHops nodes k (nid, fl, acc) = Some (nid', fl', acc') \<Longrightarrow> i + k \<le> maxIterations \<Longrightarrow>
   hubLoop nodes i nid fl acc = hubLoop nodes (i + k) nid' fl' acc'"
proof (induction k arbitrary: i nid fl acc)
  case 0
  then show ?case by simp
next
  case (Suc k)
  from Suc.prems(1) obtain nid2 fl2 acc2 where
    h: "hubHop nodes (nid, fl, acc) = Some (nid2, fl2, acc2)"
    and r: "hubHops nodes k (nid2, fl2, acc2) = Some (nid', fl', acc')"
    by (auto split: option.splits)
  from Suc.prems(2) have "i < maxIterations" "(i + 1) + k \<le> maxIterations" by simp_all
  with h r Suc.IH[of nid2 fl2 acc2 "i + 1"] show ?case
    by (simp add: hubLoop_hop_Some)
qed

lemma merge_append:
  "(base ++ map_of (rev (flagPairs acc))) ++ map_of (rev (flagPairs fs))
     = base ++ map_of (rev (flagPairs (acc @ fs)))"
  by simp

lemma hubHop_flags:
  "hubHop nodes (nid, base ++ map_of (rev (flagPairs acc)), acc) = Some (nid', fl', acc') \<Longrightarrow>
   fl' = base ++ map_of (rev (flagPairs acc'))"
  by (auto simp add: hubHop_def split: option.splits if_splits)

lemma hubHops_flags:
  "hubHops nodes k (nid, base ++ map_of (rev (flagPairs acc)), acc) = Some (nid', fl', acc') \<Longrightarrow>
   fl' = base ++ map_of (rev (flagPairs acc'))"
proof (induction k arbitrary: nid acc)
  case 0
  then show ?case by auto
next
  case (Suc k)
  from Suc.prems obtain nid2 fl2 acc2 where
    h: "hubHop nodes (nid, base ++ map_of (rev (flagPairs acc)), acc) = Some (nid2, fl2, acc2)"
    and r: "hubHops nodes k (nid2, fl2, acc2) = Some (nid', fl', acc')"
    by (auto split: option.splits)
  from hubHop_flags[OF h] have "fl2 = base ++ map_of (rev (flagPairs acc2))" .
  with r Suc.IH show ?case by simp
qed

lemma hubHops_prefix:
  "hubHops nodes k s = Some s' \<Longrightarrow> j \<le> k \<Longrightarrow> hubHops nodes j s \<noteq> None"
proof (induction k arbitrary: s j)
  case 0
  then show ?case by simp
next
  case (Suc k)
  show ?case
  proof (cases j)
    case 0
    then show ?thesis by simp
  next
    case (Suc j')
    from Suc.prems(1) obtain s2 where h: "hubHop nodes s = Some s2"
      and r: "hubHops nodes k s2 = Some s'"
      by (auto split: option.splits)
    from Suc.prems(2) Suc have "j' \<le> k" by simp
    from Suc.IH[OF r this] have "hubHops nodes j' s2 \<noteq> None" .
    with h Suc show ?thesis by simp
  qed
qed

lemma hubHop_stop_iff:
  "hubHop nodes (nid, fl, acc) = None \<longleftrightarrow>
     nid = ''END'' \<or> (case nodes nid of None \<Rightarrow> True
        | Some node \<Rightarrow> \<not> isHubNode node \<or> evaluateHubNode node fl = None)"
  by (auto simp add: hubHop_def split: option.splits)


text \<open>
  C7. \<open>processHubNodes\<close> is total, and its result is reached from the start node by
  \<open>k\<close> hops with \<open>k\<close> at most 50. Each hop leaves a hub node that is not the
  terminal id and whose routing succeeds; with fewer than 50 hops the node reached is
  the terminal id, is no node or no hub node, or its routing fails. The working flags
  at every hop are the initial flags overridden by the flags of all earlier hops (for a
  name set more than once the latest value, for a name never set the initial value),
  so a later hop is evaluated against the flags set by the earlier ones; this is also
  what \<open>applyFlags\<close> gives on the accumulated list.
\<close>

theorem processHubNodes_bounded:
  "\<exists>k fl'. k \<le> 50
      \<and> hubHops nodes k (start, fl, [])
           = Some (fst (processHubNodes nodes start fl), fl', snd (processHubNodes nodes start fl))
      \<and> fl' = fl ++ map_of (rev (flagPairs (snd (processHubNodes nodes start fl))))
      \<and> fl' = applyFlags fl (snd (processHubNodes nodes start fl))
      \<and> (k < 50 \<longrightarrow>
            fst (processHubNodes nodes start fl) = ''END''
          \<or> (case nodes (fst (processHubNodes nodes start fl)) of
                None \<Rightarrow> True
              | Some node \<Rightarrow> \<not> isHubNode node \<or> evaluateHubNode node fl' = None))
      \<and> (\<forall>j \<le> k. \<exists>n a. hubHops nodes j (start, fl, [])
                             = Some (n, fl ++ map_of (rev (flagPairs a)), a))"
proof -
  obtain it nid' fl' acc' where r: "hubLoop nodes 0 start fl [] = (it, nid', fl', acc')"
    by (cases "hubLoop nodes 0 start fl []")
  then have p: "processHubNodes nodes start fl = (nid', acc')"
    by (simp add: processHubNodes_def)
  from hubLoop_hops[OF _ r, of maxIterations] obtain k where
    k: "k \<le> 50" "hubHops nodes k (start, fl, []) = Some (nid', fl', acc')"
       "k < 50 \<longrightarrow> hubHop nodes (nid', fl', acc') = None"
    by (auto simp add: maxIterations_def)
  have f: "fl' = fl ++ map_of (rev (flagPairs acc'))"
    using hubHops_flags[of nodes k start fl "[]" nid' fl' acc'] k(2) by simp
  then have g: "fl' = applyFlags fl acc'"
    by (simp add: applyFlags_merge)
  have pre: "\<exists>n a. hubHops nodes j (start, fl, []) = Some (n, fl ++ map_of (rev (flagPairs a)), a)"
    if "j \<le> k" for j
  proof -
    from hubHops_prefix[OF k(2) that] obtain n f a where
      j: "hubHops nodes j (start, fl, []) = Some (n, f, a)" by auto
    with hubHops_flags[of nodes j start fl "[]" n f a]
    have "f = fl ++ map_of (rev (flagPairs a))" by simp
    with j show ?thesis by blast
  qed
  from k(3) have stop: "k < 50 \<longrightarrow> nid' = ''END''
      \<or> (case nodes nid' of None \<Rightarrow> True
          | Some node \<Rightarrow> \<not> isHubNode node \<or> evaluateHubNode node fl' = None)"
    by (simp add: hubHop_stop_iff)
  show ?thesis
  proof (intro exI[of _ k] exI[of _ fl'] conjI)
    show "k \<le> 50" by (rule k(1))
    show "hubHops nodes k (start, fl, [])
           = Some (fst (processHubNodes nodes start fl), fl', snd (processHubNodes nodes start fl))"
      using k(2) by (simp add: p)
    show "fl' = fl ++ map_of (rev (flagPairs (snd (processHubNodes nodes start fl))))"
      using f by (simp add: p)
    show "fl' = applyFlags fl (snd (processHubNodes nodes start fl))"
      using g by (simp add: p)
    show "k < 50 \<longrightarrow>
            fst (processHubNodes nodes start fl) = ''END''
          \<or> (case nodes (fst (processHubNodes nodes start fl)) of
                None \<Rightarrow> True
              | Some node \<Rightarrow> \<not> isHubNode node \<or> evaluateHubNode node fl' = None)"
      using stop by (simp add: p)
    show "\<forall>j \<le> k. \<exists>n a. hubHops nodes j (start, fl, [])
                             = Some (n, fl ++ map_of (rev (flagPairs a)), a)"
      using pre by blast
  qed
qed

text \<open>
  C8 (as amended). When the cap of 50 hops is reached, \<open>processHubNodes\<close> stops and
  returns the node id reached last and the flags accumulated so far, the same kind of
  value as for a stop at a node that cannot hop; nothing is signalled.
\<close>

theorem processHubNodes_cap_silent:
  "k \<le> 50 \<Longrightarrow> hubHops nodes k (start, fl, []) = Some (nid, fl', acc) \<Longrightarrow>
   k = 50 \<or> hubHop nodes (nid, fl', acc) = None \<Longrightarrow>
   processHubNodes nodes start fl = (nid, acc)"
proof -
  assume k: "k \<le> 50" and h: "hubHops nodes k (start, fl, []) = Some (nid, fl', acc)"
    and c: "k = 50 \<or> hubHop nodes (nid, fl', acc) = None"
  from hubLoop_after_hops[OF h, of 0] k
  have e: "hubLoop nodes 0 start fl [] = hubLoop nodes k nid fl' acc"
    by (simp add: maxIterations_def)
  show ?thesis
  proof (cases "k = 50")
    case True
    then show ?thesis
      by (simp add: processHubNodes_def e hubLoop_done maxIterations_def)
  next
    case False
    with k c have "k < maxIterations" "hubHop nodes (nid, fl', acc) = None"
      by (simp_all add: maxIterations_def)
    then show ?thesis
      by (simp add: processHubNodes_def e hubLoop_hop_None)
  qed
qed


lemma chainTree_result:
  "processHubNodes chainTree ''hub_a'' startFlags = (''Q_yes'', [flagOn ''flag_x''])"
  by (simp add: processHubNodes_def hubLoop.simps maxIterations_def chainTree_def hubNode_def
      isHubNode_def evaluateHubNode_def evaluateAllConditions_def evaluateCondition_def
      flagIs_def noCondition_def flagOn_def applyFlags_def startFlags_def)

theorem processHubNodes_bounded_witness:
  "processHubNodes chainTree ''hub_a'' startFlags = (''Q_yes'', [flagOn ''flag_x''])
   \<and> startFlags ''go'' = Some (BoolV True) \<and> startFlags ''flag_x'' = Some (BoolV False)
   \<and> (\<exists>k fl'. k \<le> 50
      \<and> hubHops chainTree k (''hub_a'', startFlags, []) = Some (''Q_yes'', fl', [flagOn ''flag_x''])
      \<and> fl' = startFlags ++ map_of [(''flag_x'', BoolV True)]
      \<and> fl' ''go'' = Some (BoolV True) \<and> fl' ''flag_x'' = Some (BoolV True)
      \<and> fl' = applyFlags startFlags [flagOn ''flag_x'']
      \<and> (k < 50 \<longrightarrow> chainTree ''Q_yes'' = None)
      \<and> (\<forall>j \<le> k. \<exists>n a. hubHops chainTree j (''hub_a'', startFlags, [])
                              = Some (n, startFlags ++ map_of (rev (flagPairs a)), a)))"
proof -
  have q: "chainTree ''Q_yes'' = None"
    by (simp add: chainTree_def)
  from processHubNodes_bounded[of chainTree "''hub_a''" startFlags,
      unfolded chainTree_result fst_conv snd_conv]
  obtain k fl' where w: "k \<le> 50
      \<and> hubHops chainTree k (''hub_a'', startFlags, []) = Some (''Q_yes'', fl', [flagOn ''flag_x''])
      \<and> fl' = startFlags ++ map_of (rev (flagPairs [flagOn ''flag_x'']))
      \<and> fl' = applyFlags startFlags [flagOn ''flag_x'']
      \<and> (k < 50 \<longrightarrow>
            ''Q_yes'' = ''END''
          \<or> (case chainTree ''Q_yes'' of
                None \<Rightarrow> True
              | Some node \<Rightarrow> \<not> isHubNode node \<or> evaluateHubNode node fl' = None))
      \<and> (\<forall>j \<le> k. \<exists>n a. hubHops chainTree j (''hub_a'', startFlags, [])
                             = Some (n, startFlags ++ map_of (rev (flagPairs a)), a))"
    by (elim exE) (rule that)
  note w1 = w[THEN conjunct1]
  note w2 = w[THEN conjunct2, THEN conjunct1]
  note w3 = w[THEN conjunct2, THEN conjunct2, THEN conjunct1]
  note w4 = w[THEN conjunct2, THEN conjunct2, THEN conjunct2, THEN conjunct1]
  note w6 = w[THEN conjunct2, THEN conjunct2, THEN conjunct2, THEN conjunct2, THEN conjunct2]
  have m: "fl' = startFlags ++ map_of [(''flag_x'', BoolV True)]"
    by (subst w3) (simp add: flagOn_def)
  show ?thesis
  proof (intro conjI exI[of _ k] exI[of _ fl'])
    show "processHubNodes chainTree ''hub_a'' startFlags = (''Q_yes'', [flagOn ''flag_x''])"
      by (rule chainTree_result)
    show "startFlags ''go'' = Some (BoolV True)"
      by (simp add: startFlags_def)
    show "startFlags ''flag_x'' = Some (BoolV False)"
      by (simp add: startFlags_def)
    show "k \<le> 50" by (rule w1)
    show "hubHops chainTree k (''hub_a'', startFlags, [])
        = Some (''Q_yes'', fl', [flagOn ''flag_x''])" by (rule w2)
    show "fl' = startFlags ++ map_of [(''flag_x'', BoolV True)]" by (rule m)
    show "fl' ''go'' = Some (BoolV True)"
      by (subst m) (simp add: startFlags_def map_add_def)
    show "fl' ''flag_x'' = Some (BoolV True)"
      by (subst m) (simp add: map_add_def)
    show "fl' = applyFlags startFlags [flagOn ''flag_x'']" by (rule w4)
    show "k < 50 \<longrightarrow> chainTree ''Q_yes'' = None" by (simp add: q)
    show "\<forall>j \<le> k. \<exists>n a. hubHops chainTree j (''hub_a'', startFlags, [])
                              = Some (n, startFlags ++ map_of (rev (flagPairs a)), a)"
      by (rule w6)
  qed
qed

lemma loopTree_hop:
  "hubHop loopTree (''hub_a'', goFlags, []) = Some (''hub_a'', goFlags, [])"
  by (simp add: hubHop_def loopTree_def hubNode_def isHubNode_def evaluateHubNode_def
      evaluateAllConditions_def evaluateCondition_def flagIs_def noCondition_def
      applyFlags_def goFlags_def)

lemma loopTree_hops:
  "hubHops loopTree k (''hub_a'', goFlags, []) = Some (''hub_a'', goFlags, [])"
  by (induction k) (simp_all add: loopTree_hop)

lemma loopTree_stuck:
  "hubHop loopTree (''hub_a'', noFlags, []) = None"
  by (simp add: hubHop_def loopTree_def hubNode_def isHubNode_def evaluateHubNode_def
      evaluateAllConditions_def evaluateCondition_def flagIs_def noCondition_def noFlags_def)

text \<open>
  C8 (as stated) fails. In \<open>loopTree\<close> the hub routes to itself while the flag \<open>go\<close>
  is true: 50 hops are taken, the node reached is still a hub that would hop again, and
  the value returned is the node id with no flags, the very value returned when the
  routing of that hub fails at once.
\<close>

theorem processHubNodes_cap_counterexample:
  "hubHops loopTree 50 (''hub_a'', goFlags, []) = Some (''hub_a'', goFlags, [])
   \<and> hubHop loopTree (''hub_a'', goFlags, []) \<noteq> None
   \<and> processHubNodes loopTree ''hub_a'' goFlags = (''hub_a'', [])
   \<and> processHubNodes loopTree ''hub_a'' noFlags = (''hub_a'', [])"
proof (intro conjI)
  show "hubHops loopTree 50 (''hub_a'', goFlags, []) = Some (''hub_a'', goFlags, [])"
    by (rule loopTree_hops)
  show "hubHop loopTree (''hub_a'', goFlags, []) \<noteq> None"
    by (simp add: loopTree_hop)
  have "hubLoop loopTree 0 ''hub_a'' goFlags [] = hubLoop loopTree (0 + 50) ''hub_a'' goFlags []"
    by (rule hubLoop_after_hops[OF loopTree_hops]) (simp add: maxIterations_def)
  then show "processHubNodes loopTree ''hub_a'' goFlags = (''hub_a'', [])"
    by (simp add: processHubNodes_def hubLoop_done maxIterations_def)
  show "processHubNodes loopTree ''hub_a'' noFlags = (''hub_a'', [])"
    by (simp add: processHubNodes_def hubLoop_hop_None[OF _ loopTree_stuck] maxIterations_def)
qed

theorem processHubNodes_cap_silent_witness:
  "hubHops loopTree 50 (''hub_a'', goFlags, []) = Some (''hub_a'', goFlags, [])
   \<and> processHubNodes loopTree ''hub_a'' goFlags = (''hub_a'', [])"
  using processHubNodes_cap_silent[of 50 loopTree "''hub_a''" goFlags "''hub_a''" goFlags "[]"]
    loopTree_hops[of 50]
  by simp

section \<open>Per-answer flags\<close>

lemma flagConfig_skip_iff:
  "(case condition fc of
      Some conds \<Rightarrow> length conds > 0 \<and> \<not> list_all (nestedConditionMet cf) conds
    | None \<Rightarrow> False) \<longleftrightarrow> \<not> flagEqualsHold cf fc"
  by (auto simp add: flagEqualsHold_def nestedOf_def nestedConditionMet_def list_all_iff
      split: option.splits)

lemma flagConfigLoop_eq:
  "flagConfigLoop fs cf acc = acc @ map bare (filter (flagEqualsHold cf) fs)"
proof (induction fs arbitrary: acc)
  case Nil
  then show ?case by simp
next
  case (Cons fc fs)
  show ?case
  proof (cases "flagEqualsHold cf fc")
    case True
    then show ?thesis
      by (simp only: flagConfigLoop.simps flagConfig_skip_iff Cons.IH) (simp add: bare_def)
  next
    case False
    then show ?thesis
      by (simp only: flagConfigLoop.simps flagConfig_skip_iff Cons.IH) simp
  qed
qed

lemma answerLoop_eq:
  "answerLoop af sel cf acc =
     acc @ concat (map (\<lambda>i. map bare (filter (flagEqualsHold cf)
        (case af (toString i) of
           None \<Rightarrow> []
         | Some answerConfig \<Rightarrow>
             (case afc_set_flags answerConfig of None \<Rightarrow> [] | Some fs \<Rightarrow> fs)))) sel)"
  by (induction sel arbitrary: acc) (simp_all add: flagConfigLoop_eq split: option.splits)

text \<open>
  C10. In \<open>getAnswerFlags\<close> a flag entry of a selected answer is applied exactly when
  every nested condition that has a \<open>flag_equals\<close> field holds against the current
  flags. A nested condition without that field counts as satisfied, so an entry
  guarded by such conditions only is always applied.
\<close>

theorem getAnswerFlags_only_flag_equals:
  "getAnswerFlags node sel cf =
     concat (map (\<lambda>i. map bare (filter (flagEqualsHold cf) (flagConfigsFor node i))) sel)
   \<and> ((\<forall>fc \<in> set (flagConfigsFor node i). \<forall>cond \<in> set (nestedOf fc). flag_equals cond = None)
        \<longrightarrow> getAnswerFlags node [i] cf = map bare (flagConfigsFor node i))"
proof
  show e: "getAnswerFlags node sel cf =
     concat (map (\<lambda>i. map bare (filter (flagEqualsHold cf) (flagConfigsFor node i))) sel)" for sel
    by (cases "answer_flags node")
       (simp_all add: getAnswerFlags_def answerLoop_eq flagConfigsFor_def)
  show "(\<forall>fc \<in> set (flagConfigsFor node i). \<forall>cond \<in> set (nestedOf fc). flag_equals cond = None)
        \<longrightarrow> getAnswerFlags node [i] cf = map bare (flagConfigsFor node i)"
  proof
    assume a: "\<forall>fc \<in> set (flagConfigsFor node i). \<forall>cond \<in> set (nestedOf fc). flag_equals cond = None"
    then have "filter (flagEqualsHold cf) (flagConfigsFor node i) = flagConfigsFor node i"
      by (auto simp add: flagEqualsHold_def filter_id_conv)
    then show "getAnswerFlags node [i] cf = map bare (flagConfigsFor node i)"
      by (simp add: e)
  qed
qed

lemma toString_0: "toString 0 = ''0''"
  by (simp add: toString_def natToString.simps digitChar_def)

theorem getAnswerFlags_only_flag_equals_witness:
  "getAnswerFlags guardedNode [0] noFlags = [flagOn ''flag_a'']
   \<and> \<not> evaluateCondition (noCondition\<lparr> answer_is := Some 7 \<rparr>) [0] noFlags
   \<and> getAnswerFlags (guardedNode\<lparr> answer_flags := Some
         [''0'' \<mapsto> \<lparr> afc_set_flags = Some [\<lparr> flag_name = ''flag_a'', flag_value = BoolV True,
              condition = Some [noCondition\<lparr> answer_is := Some 7 \<rparr>] \<rparr>],
            afc_exclusive = None \<rparr>] \<rparr>) [0] noFlags = [flagOn ''flag_a'']"
  using getAnswerFlags_only_flag_equals[of guardedNode "[0]" noFlags 0]
    getAnswerFlags_only_flag_equals[of "guardedNode\<lparr> answer_flags := Some
         [''0'' \<mapsto> \<lparr> afc_set_flags = Some [\<lparr> flag_name = ''flag_a'', flag_value = BoolV True,
              condition = Some [noCondition\<lparr> answer_is := Some 7 \<rparr>] \<rparr>],
            afc_exclusive = None \<rparr>] \<rparr>" "[0]" noFlags 0]
  by (simp add: guardedNode_def flagConfigsFor_def toString_0 flagEqualsHold_def nestedOf_def
      noCondition_def flagIs_def bare_def flagOn_def noFlags_def evaluateCondition_def)

section \<open>Validation\<close>

lemma parseInt_digit:
  "parseInt ''0'' = Some 0" "parseInt ''1'' = Some 1" "parseInt ''2'' = Some 2"
  "parseInt ''3'' = Some 3" "parseInt ''4'' = Some 4" "parseInt ''5'' = Some 5"
  by (simp_all add: parseInt_def isWhiteSpace_def digitValue_def Let_def)

lemma toString_1: "toString 1 = ''1''"
  by (simp add: toString_def natToString.simps digitChar_def)

lemma exclusive_check_iff:
  "(length (filter (\<lambda>opt. exclusive opt = Some True) (options q)) > 0
      \<and> list_ex (\<lambda>ans. list_ex (\<lambda>opt. parseInt (opt_id opt) = Some ans)
            (filter (\<lambda>opt. exclusive opt = Some True) (options q))) sel)
   \<longleftrightarrow> exclusiveSelected q sel"
  by (auto simp add: exclusiveSelected_def list_ex_iff filter_empty_conv)

lemma validateAnswer_main:
  "\<not> (required q \<and> sel = []) \<Longrightarrow> \<not> (q_type q = single_choice \<and> length sel > 1) \<Longrightarrow>
   validateAnswer q sel rule =
     (let errs = (case rule of
                  None \<Rightarrow> []
                | Some r \<Rightarrow>
                    (if min_selections r \<noteq> 0 \<and> int (length sel) < min_selections r
                     then [''Please select at least '' @ toString (min_selections r)
                             @ '' option(s)'']
                     else [])
                    @ (case max_selections r of
                         None \<Rightarrow> []
                       | Some m \<Rightarrow>
                           (if m \<noteq> 0 \<and> int (length sel) > m
                            then [''Please select at most '' @ toString m @ '' option(s)'']
                            else [])))
      in if exclusiveSelected q sel \<and> length sel > 1
         then \<lparr> isValid = False,
                errors = errs @ [''The selected option cannot be combined with other options''] \<rparr>
         else \<lparr> isValid = (errs = []), errors = errs \<rparr>)"
proof -
  assume a: "\<not> (required q \<and> sel = [])" and b: "\<not> (q_type q = single_choice \<and> length sel > 1)"
  from a have a': "(required q \<and> length sel = 0) = False" by simp
  from b have b': "(q_type q = single_choice \<and> length sel > 1) = False" by simp
  show ?thesis
    unfolding validateAnswer_def Let_def a' b' if_False exclusive_check_iff[symmetric]
    by (simp only: conj_assoc length_0_conv)
qed


lemma boundErrors_unfold:
  "(case rule of
      None \<Rightarrow> []
    | Some r \<Rightarrow>
        (if min_selections r \<noteq> 0 \<and> int (length sel) < min_selections r
         then [''Please select at least '' @ toString (min_selections r) @ '' option(s)'']
         else [])
        @ (case max_selections r of
             None \<Rightarrow> []
           | Some m \<Rightarrow>
               (if m \<noteq> 0 \<and> int (length sel) > m
                then [''Please select at most '' @ toString m @ '' option(s)'']
                else []))) = boundErrors rule sel"
  by (simp add: boundErrors_def minViolated_def maxViolated_def split: option.splits)

lemma boundErrors_empty_iff:
  "boundErrors rule sel = [] \<longleftrightarrow> \<not> minViolated rule sel \<and> \<not> maxViolated rule sel"
  by (auto simp add: boundErrors_def minViolated_def maxViolated_def split: option.splits)

lemma exclusiveSelected_by_index:
  assumes "idsAreIndices q"
  shows "exclusiveSelected q sel \<longleftrightarrow> (\<exists>ans \<in> set sel. isExclusiveOption q ans)"
proof
  assume "exclusiveSelected q sel"
  then obtain ans opt where s: "ans \<in> set sel" "opt \<in> set (options q)"
      "exclusive opt = Some True" "parseInt (opt_id opt) = Some ans"
    by (auto simp add: exclusiveSelected_def)
  from s(2) obtain k where k: "k < length (options q)" "options q ! k = opt"
    by (auto simp add: in_set_conv_nth)
  with assms have "parseInt (opt_id opt) = Some (int k)"
    by (auto simp add: idsAreIndices_def)
  with s(4) have "ans = int k" by simp
  with k s(3) have "isExclusiveOption q ans"
    by (simp add: isExclusiveOption_def)
  with s(1) show "\<exists>ans \<in> set sel. isExclusiveOption q ans" by blast
next
  assume "\<exists>ans \<in> set sel. isExclusiveOption q ans"
  then obtain ans where a: "ans \<in> set sel" "isExclusiveOption q ans" by blast
  then have i: "0 \<le> ans" "nat ans < length (options q)"
      "exclusive (options q ! nat ans) = Some True"
    by (auto simp add: isExclusiveOption_def split: if_splits)
  with assms have "parseInt (opt_id (options q ! nat ans)) = Some ans"
    by (simp add: idsAreIndices_def)
  with i a(1) show "exclusiveSelected q sel"
    unfolding exclusiveSelected_def
    by (intro bexI[of _ ans] bexI[of _ "options q ! nat ans"]) simp_all
qed

text \<open>
  C3 (as amended). \<open>validateAnswer\<close> checks in order: (1) required and empty, and
  (2) \<open>single_choice\<close> with more than one selection, each return at once with that
  single error; (3) a violated non-zero minimum or maximum of the rule adds an error
  each; (4) when a selected value is the numeric id of an option marked exclusive (with
  ids equal to indices: when a selected index is marked exclusive) and more than one
  index is selected, the exclusivity error is appended after the errors of step 3, which
  are kept. The result is valid if and only if no error was produced.
\<close>

theorem validateAnswer_checks_in_order:
  "(required q \<and> sel = [] \<longrightarrow>
      validateAnswer q sel rule
        = \<lparr> isValid = False, errors = [''Please select at least one option''] \<rparr>)
   \<and> (\<not> (required q \<and> sel = []) \<and> q_type q = single_choice \<and> length sel > 1 \<longrightarrow>
      validateAnswer q sel rule
        = \<lparr> isValid = False, errors = [''Please select only one option''] \<rparr>)
   \<and> (\<not> (required q \<and> sel = []) \<and> \<not> (q_type q = single_choice \<and> length sel > 1) \<longrightarrow>
      errors (validateAnswer q sel rule)
        = boundErrors rule sel
          @ (if exclusiveSelected q sel \<and> length sel > 1
             then [''The selected option cannot be combined with other options'']
             else []))
   \<and> (boundErrors rule sel = [] \<longleftrightarrow> \<not> minViolated rule sel \<and> \<not> maxViolated rule sel)
   \<and> isValid (validateAnswer q sel rule) = (errors (validateAnswer q sel rule) = [])
   \<and> (idsAreIndices q \<longrightarrow>
        exclusiveSelected q sel = (\<exists>ans \<in> set sel. isExclusiveOption q ans))"
proof (intro conjI impI)
  show "validateAnswer q sel rule
        = \<lparr> isValid = False, errors = [''Please select at least one option''] \<rparr>"
    if "required q \<and> sel = []"
    using that by (simp add: validateAnswer_def)
  show "validateAnswer q sel rule
        = \<lparr> isValid = False, errors = [''Please select only one option''] \<rparr>"
    if "\<not> (required q \<and> sel = []) \<and> q_type q = single_choice \<and> length sel > 1"
    using that by (simp add: validateAnswer_def)
  show "errors (validateAnswer q sel rule)
        = boundErrors rule sel
          @ (if exclusiveSelected q sel \<and> length sel > 1
             then [''The selected option cannot be combined with other options'']
             else [])"
    if "\<not> (required q \<and> sel = []) \<and> \<not> (q_type q = single_choice \<and> length sel > 1)"
    using that by (simp add: validateAnswer_main boundErrors_unfold Let_def)
  show "boundErrors rule sel = [] \<longleftrightarrow> \<not> minViolated rule sel \<and> \<not> maxViolated rule sel"
    by (rule boundErrors_empty_iff)
  show "isValid (validateAnswer q sel rule) = (errors (validateAnswer q sel rule) = [])"
  proof (cases "required q \<and> sel = []")
    case True
    then show ?thesis by (simp add: validateAnswer_def)
  next
    case r: False
    show ?thesis
    proof (cases "q_type q = single_choice \<and> length sel > 1")
      case True
      with r show ?thesis by (simp add: validateAnswer_def)
    next
      case False
      with r show ?thesis
        by (simp add: validateAnswer_main boundErrors_unfold Let_def)
    qed
  qed
  show "exclusiveSelected q sel = (\<exists>ans \<in> set sel. isExclusiveOption q ans)"
    if "idsAreIndices q"
    using that by (rule exclusiveSelected_by_index)
qed

lemma checkboxQuestion_exclusiveSelected:
  "exclusiveSelected checkboxQuestion [0, 5]"
  by (simp add: exclusiveSelected_def checkboxQuestion_def sixOptions_def plainOption_def
      parseInt_digit)

text \<open>
  C3 (as stated) fails: with the exclusive option 5 selected together with option 0,
  under a rule that allows one selection, the result holds two errors, the one of
  step 3 first; the exclusivity error does not replace it.
\<close>

theorem validateAnswer_exclusive_counterexample:
  "isExclusiveOption checkboxQuestion 5
   \<and> validateAnswer checkboxQuestion [0, 5] (Some maxOneRule)
       = \<lparr> isValid = False,
           errors = [''Please select at most 1 option(s)'',
                     ''The selected option cannot be combined with other options''] \<rparr>"
proof
  show "isExclusiveOption checkboxQuestion 5"
    by (simp add: isExclusiveOption_def checkboxQuestion_def sixOptions_def plainOption_def)
  have a: "\<not> (required checkboxQuestion \<and> [0, 5 :: int] = [])" by simp
  have b: "\<not> (q_type checkboxQuestion = single_choice \<and> length [0, 5 :: int] > 1)"
    by (simp add: checkboxQuestion_def)
  show "validateAnswer checkboxQuestion [0, 5] (Some maxOneRule)
       = \<lparr> isValid = False,
           errors = [''Please select at most 1 option(s)'',
                     ''The selected option cannot be combined with other options''] \<rparr>"
    by (simp add: validateAnswer_main[OF a b] checkboxQuestion_exclusiveSelected
        maxOneRule_def toString_1)
qed

lemma checkboxQuestion_idsAreIndices:
  "idsAreIndices checkboxQuestion"
  by (auto simp add: idsAreIndices_def checkboxQuestion_def sixOptions_def plainOption_def
      parseInt_digit less_Suc_eq)

theorem validateAnswer_checks_in_order_witness:
  "required checkboxQuestion
   \<and> idsAreIndices checkboxQuestion
   \<and> exclusiveSelected checkboxQuestion [0, 5]
   \<and> (\<exists>ans \<in> set [0, 5]. isExclusiveOption checkboxQuestion ans)
   \<and> validateAnswer checkboxQuestion [] (Some maxOneRule)
       = \<lparr> isValid = False, errors = [''Please select at least one option''] \<rparr>
   \<and> validateAnswer (checkboxQuestion\<lparr> q_type := single_choice \<rparr>) [0, 1] None
       = \<lparr> isValid = False, errors = [''Please select only one option''] \<rparr>
   \<and> errors (validateAnswer checkboxQuestion [0, 5] (Some maxOneRule))
       = [''Please select at most 1 option(s)'',
          ''The selected option cannot be combined with other options'']
   \<and> \<not> isValid (validateAnswer checkboxQuestion [0, 5] (Some maxOneRule))
   \<and> isValid (validateAnswer checkboxQuestion [0] (Some maxOneRule))"
proof -
  have rq: "required checkboxQuestion" "q_type checkboxQuestion = multiple_choice"
    by (simp_all add: checkboxQuestion_def)
  have be: "boundErrors (Some maxOneRule) [0, 5] = [''Please select at most 1 option(s)'']"
    "boundErrors (Some maxOneRule) [0] = []"
    by (simp_all add: boundErrors_def minViolated_def maxViolated_def maxOneRule_def toString_1)
  show ?thesis
    using validateAnswer_checks_in_order[of checkboxQuestion "[]" "Some maxOneRule"]
      validateAnswer_checks_in_order[of "checkboxQuestion\<lparr> q_type := single_choice \<rparr>" "[0, 1]" None]
      validateAnswer_checks_in_order[of checkboxQuestion "[0, 5]" "Some maxOneRule"]
      validateAnswer_checks_in_order[of checkboxQuestion "[0]" "Some maxOneRule"]
    by (simp add: rq be checkboxQuestion_exclusiveSelected checkboxQuestion_idsAreIndices)
qed

end
